theory Spec2Isabelle
  imports Complex_Main "HOL-Library.Log_Nat"
begin

section \<open>JavaScript numbers\<close>

text \<open>
  The program is JavaScript: every number in it is an IEEE 754 binary64 value and every
  \<open>+\<close>, \<open>-\<close> and \<open>*\<close> rounds its exact result to the nearest binary64 value, ties to
  the even significand, overflowing to an infinity.  A finite value is kept as the rational
  number it denotes.  The two zeros are identified: the program never divides, and
  \<open>+\<close>, \<open>-\<close>, \<open>*\<close>, \<open><\<close>, \<open><=\<close> and \<open>Number.isFinite\<close> tell them apart only in the
  sign of a zero result.
\<close>

datatype number = NaN | PInf | NInf | Fin rat

text \<open>\<open>ilog2 x\<close> is the binary exponent of a non-zero \<open>x\<close>:
  \<open>2 powi ilog2 x \<le> \<bar>x\<bar> < 2 powi (ilog2 x + 1)\<close>; \<open>ilog2i a b\<close> computes it for the fraction
  \<open>a / b\<close> of two positive integers from their bit lengths.\<close>

definition ilog2i :: "int \<Rightarrow> int \<Rightarrow> int" where
  "ilog2i a b = (let k = bitlen a - bitlen b in
     if (if 0 \<le> k then b * 2 ^ nat k \<le> a else b \<le> a * 2 ^ nat (- k)) then k else k - 1)"

definition ilog2 :: "rat \<Rightarrow> int" where
  "ilog2 x = (case quotient_of \<bar>x\<bar> of (a, b) \<Rightarrow> ilog2i a b)"

text \<open>The exponent of the unit in the last place: 53 significant bits, and the
  subnormal grid \<open>2 powi (-1074)\<close> below \<open>2 powi (-1022)\<close>.\<close>

definition ulp_exp :: "rat \<Rightarrow> int" where
  "ulp_exp x = max (ilog2 x) (- 1022) - 52"

text \<open>Nearest integer to a non-negative rational, ties to even.\<close>

definition rne :: "rat \<Rightarrow> int" where
  "rne x = (let f = \<lfloor>x\<rfloor>; d = x - of_int f in
     if d < 1 / 2 then f else if 1 / 2 < d then f + 1 else if even f then f else f + 1)"

definition round_mag :: "rat \<Rightarrow> rat" where
  "round_mag x = of_int (rne (x / 2 powi ulp_exp x)) * 2 powi ulp_exp x"

definition round_fin :: "rat \<Rightarrow> rat" where
  "round_fin x = (if x = 0 then 0 else sgn x * round_mag \<bar>x\<bar>)"

definition round64 :: "rat \<Rightarrow> number" where
  "round64 x = (let r = round_fin x in
     if 2 ^ 1024 \<le> r then PInf else if r \<le> - (2 ^ 1024) then NInf else Fin r)"

text \<open>A value of the model is a JavaScript number when it is not a rational between two
  neighbouring binary64 values.\<close>

fun is_number :: "number \<Rightarrow> bool" where
  "is_number (Fin q) = (round64 q = Fin q)"
| "is_number _ = True"

fun fneg :: "number \<Rightarrow> number" where
  "fneg (Fin a) = Fin (- a)"
| "fneg PInf = NInf"
| "fneg NInf = PInf"
| "fneg NaN = NaN"

fun fadd :: "number \<Rightarrow> number \<Rightarrow> number" where
  "fadd (Fin a) (Fin b) = round64 (a + b)"
| "fadd NaN _ = NaN"
| "fadd _ NaN = NaN"
| "fadd PInf NInf = NaN"
| "fadd NInf PInf = NaN"
| "fadd PInf _ = PInf"
| "fadd _ PInf = PInf"
| "fadd NInf _ = NInf"
| "fadd _ NInf = NInf"

definition fsub :: "number \<Rightarrow> number \<Rightarrow> number" where
  "fsub x y = fadd x (fneg y)"

text \<open>An infinity (positive when the flag is set) times a number.\<close>

fun inf_times :: "bool \<Rightarrow> number \<Rightarrow> number" where
  "inf_times pos (Fin a) = (if a = 0 then NaN else if (0 < a) = pos then PInf else NInf)"
| "inf_times pos PInf = (if pos then PInf else NInf)"
| "inf_times pos NInf = (if pos then NInf else PInf)"
| "inf_times pos NaN = NaN"

fun fmul :: "number \<Rightarrow> number \<Rightarrow> number" where
  "fmul (Fin a) (Fin b) = round64 (a * b)"
| "fmul NaN _ = NaN"
| "fmul _ NaN = NaN"
| "fmul PInf y = inf_times True y"
| "fmul NInf y = inf_times False y"
| "fmul x PInf = inf_times True x"
| "fmul x NInf = inf_times False x"

text \<open>The comparisons \<open><\<close> and \<open><=\<close>: false whenever an operand is NaN.\<close>

fun flt :: "number \<Rightarrow> number \<Rightarrow> bool" where
  "flt (Fin a) (Fin b) = (a < b)"
| "flt NaN _ = False"
| "flt _ NaN = False"
| "flt PInf _ = False"
| "flt _ NInf = False"
| "flt _ PInf = True"
| "flt NInf _ = True"

definition fle :: "number \<Rightarrow> number \<Rightarrow> bool" where
  "fle x y = (x \<noteq> NaN \<and> y \<noteq> NaN \<and> \<not> flt y x)"

fun isFinite :: "number \<Rightarrow> bool" where
  "isFinite (Fin _) = True"
| "isFinite _ = False"

text \<open>A decimal literal of the source denotes the binary64 value nearest to it.\<close>

definition lit :: "rat \<Rightarrow> number" where
  "lit q = round64 q"

subsection \<open>The same rounding on numerators and denominators\<close>

text \<open>Integer versions of \<open>rne\<close> and \<open>round_mag\<close> on a fraction \<open>a / b\<close>; the
  simplifier computes with them on numerals.\<close>

definition rne_i :: "int \<Rightarrow> int \<Rightarrow> int" where
  "rne_i a b = (let f = a div b; r = a mod b in
     if 2 * r < b then f else if b < 2 * r then f + 1 else if even f then f else f + 1)"

definition rm_int :: "int \<Rightarrow> int \<Rightarrow> rat" where
  "rm_int a b = (let q = max (ilog2i a b) (- 1022) - 52;
       n = (if 0 \<le> q then rne_i a (b * 2 ^ nat q) else rne_i (a * 2 ^ nat (- q)) b)
     in of_int n * 2 powi q)"

text \<open>A finite number given by an integer significand and a binary exponent, the
  rounding of such a product, and \<open>rne\<close> on \<open>a / 2 ^ s\<close>.\<close>

definition fl :: "int \<Rightarrow> int \<Rightarrow> number" where
  "fl m e = Fin (of_int m * 2 powi e)"

definition rnd_fl :: "int \<Rightarrow> int \<Rightarrow> number" where
  "rnd_fl m e = round64 (of_int m * 2 powi e)"

definition rne_p :: "int \<Rightarrow> nat \<Rightarrow> int" where
  "rne_p a s = (let f = drop_bit s a; r = a - f * 2 ^ s in
     if 2 * r < 2 ^ s then f else if 2 ^ s < 2 * r then f + 1 else if even f then f else f + 1)"

section \<open>The calculation\<close>

text \<open>The table \<open>rates\<close> of \<open>calculateDistribution\<close>: fractions of the gross salary.\<close>

definition pensionEmployee :: number where "pensionEmployee = lit (155 / 1000)"
definition pensionEmployer :: number where "pensionEmployer = lit (885 / 10000)"
definition healthEmployee :: number where "healthEmployee = lit (636 / 10000)"
definition healthEmployer :: number where "healthEmployer = lit (656 / 10000)"
definition unemploymentEmployee :: number where "unemploymentEmployee = lit (14 / 10000)"
definition unemploymentEmployer :: number where "unemploymentEmployer = lit (6 / 10000)"
definition parentalEmployee :: number where "parentalEmployee = lit (10 / 10000)"
definition parentalEmployer :: number where "parentalEmployer = lit (10 / 10000)"
definition injuryEmployer :: number where "injuryEmployer = lit (53 / 10000)"
definition longTermCareEmployee :: number where "longTermCareEmployee = lit (1 / 100)"
definition longTermCareEmployer :: number where "longTermCareEmployer = lit (1 / 100)"

definition flatHealthContribution :: number where "flatHealthContribution = Fin 35"

text \<open>The table \<open>relativeGeneralShares\<close>, one constant for each key.\<close>

definition general_socialProtection :: number where
  "general_socialProtection = lit (3655913978494624 / 10 ^ 16)"
definition general_health :: number where
  "general_health = lit (15913978494623654 / 10 ^ 17)"
definition general_economicAffairs :: number where
  "general_economicAffairs = lit (13548387096774192 / 10 ^ 17)"
definition general_education :: number where
  "general_education = lit (11612903225806451 / 10 ^ 17)"
definition general_generalPublicServices :: number where
  "general_generalPublicServices = lit (989247311827957 / 10 ^ 16)"
definition general_publicOrderAndSafety :: number where
  "general_publicOrderAndSafety = lit (34408602150537634 / 10 ^ 18)"
definition general_recreationCultureReligion :: number where
  "general_recreationCultureReligion = lit (3225806451612903 / 10 ^ 17)"
definition general_defence :: number where
  "general_defence = lit (25806451612903226 / 10 ^ 18)"
definition general_environmentalProtection :: number where
  "general_environmentalProtection = lit (19354838709677417 / 10 ^ 18)"
definition general_housingAndCommunity :: number where
  "general_housingAndCommunity = lit (1075268817204301 / 10 ^ 17)"

text \<open>The table \<open>relativeSocialSubShares\<close>, one constant for each key.\<close>

definition social_sicknessAndDisability :: number where
  "social_sicknessAndDisability = lit (5478982029930613 / 10 ^ 17)"
definition social_oldAge :: number where
  "social_oldAge = lit (21217990101140521 / 10 ^ 17)"
definition social_survivors :: number where
  "social_survivors = lit (2414123774418658 / 10 ^ 17)"
definition social_familyChildren :: number where
  "social_familyChildren = lit (3907778567808973 / 10 ^ 17)"
definition social_unemployment :: number where
  "social_unemployment = lit (6608495248408616 / 10 ^ 18)"
definition social_housing :: number where
  "social_housing = lit (7080530623294946 / 10 ^ 19)"
definition social_socialExclusion :: number where
  "social_socialExclusion = lit (21477609557328 / 10 ^ 15)"
definition social_rAndD :: number where
  "social_rAndD = lit (337168124918807 / 10 ^ 19)"
definition social_other :: number where
  "social_other = lit (6574778435916736 / 10 ^ 18)"

text \<open>The combined shares of the report's categories.\<close>

definition sharePensions :: number where
  "sharePensions = social_oldAge"
definition shareUnemployment :: number where
  "shareUnemployment = social_unemployment"
definition shareFamily :: number where
  "shareFamily = social_familyChildren"
definition shareOtherSocial :: number where
  "shareOtherSocial =
     fadd (fadd (fadd (fadd social_survivors social_socialExclusion) social_housing)
       social_rAndD) social_other"
definition shareHealthcare :: number where
  "shareHealthcare = fadd general_health social_sicknessAndDisability"

text \<open>The objects of the result.  The keys of \<open>allocations\<close> carry the prefix
  \<open>alloc_\<close>, since three of them are also keys of \<open>contributions\<close> or of the tables.\<close>

record contributions =
  pension :: number
  health :: number
  unemployment :: number
  parental :: number
  injury :: number

record allocations =
  alloc_pensions :: number
  alloc_healthcare :: number
  alloc_unemployment :: number
  alloc_familySupport :: number
  alloc_otherSocialProtection :: number
  alloc_education :: number
  alloc_defence :: number
  alloc_police :: number
  alloc_economicAffairs :: number
  alloc_generalPublicServices :: number
  alloc_culture :: number
  alloc_environment :: number
  alloc_housing :: number

record entry =
  name :: string
  amount :: number

record report =
  grossSalary :: number
  netSalary :: number
  withheld :: number
  employeeContributions :: number
  employerContributions :: number
  personalIncomeTax :: number
  contributions :: contributions
  allocations :: allocations
  breakdown :: "entry list"
  totalCollected :: number

text \<open>\<open>Object.values\<close> lists the values of an object in the order its keys were
  created.\<close>

definition Object_values :: "allocations \<Rightarrow> number list" where
  "Object_values a =
     [alloc_pensions a, alloc_healthcare a, alloc_unemployment a, alloc_familySupport a,
      alloc_otherSocialProtection a, alloc_education a, alloc_defence a, alloc_police a,
      alloc_economicAffairs a, alloc_generalPublicServices a, alloc_culture a,
      alloc_environment a, alloc_housing a]"

text \<open>
  \<open>calculateDistribution(netSalary, grossSalary)\<close>.  Its parameters are numbers (the
  request handler passes results of \<open>parseFloat\<close>), on which \<open>Number\<close> is the identity,
  so the parameters are named \<open>net\<close> and \<open>gross\<close> after the constants that hold
  \<open>Number(netSalary)\<close> and \<open>Number(grossSalary)\<close>.  Each \<open>let\<close> is a \<open>const\<close> of the
  source, in the source's order (a prime is added where the name is also a key of the
  result); the error object \<open>{error: 'Invalid salary values'}\<close> is the left summand.
\<close>

definition calculateDistribution :: "number \<Rightarrow> number \<Rightarrow> string + report" where
  "calculateDistribution net gross =
    (if \<not> isFinite net \<or> \<not> isFinite gross \<or> fle gross (Fin 0)
     then Inl ''Invalid salary values''
     else
      let pensionContribution = fmul gross (fadd pensionEmployee pensionEmployer);
          healthContribution =
            fadd (fmul gross (fadd (fadd (fadd healthEmployee healthEmployer)
                    longTermCareEmployee) longTermCareEmployer))
              flatHealthContribution;
          unemploymentContribution =
            fmul gross (fadd unemploymentEmployee unemploymentEmployer);
          parentalContribution = fmul gross (fadd parentalEmployee parentalEmployer);
          injuryContribution = fmul gross injuryEmployer;
          totalEmployeeContrib =
            fadd (fmul gross (fadd (fadd (fadd (fadd pensionEmployee healthEmployee)
                    unemploymentEmployee) parentalEmployee) longTermCareEmployee))
              flatHealthContribution;
          totalEmployerContrib =
            fmul gross (fadd (fadd (fadd (fadd (fadd pensionEmployer healthEmployer)
                    unemploymentEmployer) parentalEmployer) injuryEmployer)
                    longTermCareEmployer);
          withheld' = fsub gross net;
          estimatedEmployeeContrib =
            fadd (fmul gross (fadd (fadd (fadd (fadd pensionEmployee healthEmployee)
                    unemploymentEmployee) parentalEmployee) longTermCareEmployee))
              flatHealthContribution;
          personalIncomeTax0 = fsub withheld' estimatedEmployeeContrib;
          personalIncomeTax' =
            (if flt personalIncomeTax0 (Fin 0) then Fin 0 else personalIncomeTax0);
          allocated = \<lparr>
            alloc_pensions = fmul personalIncomeTax' sharePensions,
            alloc_healthcare = fmul personalIncomeTax' shareHealthcare,
            alloc_unemployment = fmul personalIncomeTax' shareUnemployment,
            alloc_familySupport = fmul personalIncomeTax' shareFamily,
            alloc_otherSocialProtection = fmul personalIncomeTax' shareOtherSocial,
            alloc_education = fmul personalIncomeTax' general_education,
            alloc_defence = fmul personalIncomeTax' general_defence,
            alloc_police = fmul personalIncomeTax' general_publicOrderAndSafety,
            alloc_economicAffairs = fmul personalIncomeTax' general_economicAffairs,
            alloc_generalPublicServices =
              fmul personalIncomeTax' general_generalPublicServices,
            alloc_culture = fmul personalIncomeTax' general_recreationCultureReligion,
            alloc_environment = fmul personalIncomeTax' general_environmentalProtection,
            alloc_housing = fmul personalIncomeTax' general_housingAndCommunity \<rparr>;
          finalBreakdown =
           [\<lparr> name = ''Pensions (old age)'',
               amount = fadd pensionContribution (alloc_pensions allocated) \<rparr>,
            \<lparr> name = ''Healthcare & medical system'',
               amount = fadd (fadd healthContribution (alloc_healthcare allocated))
                          injuryContribution \<rparr>,
            \<lparr> name = ''Unemployment insurance'',
               amount = fadd unemploymentContribution (alloc_unemployment allocated) \<rparr>,
            \<lparr> name = ''Parental & family support'',
               amount = fadd parentalContribution (alloc_familySupport allocated) \<rparr>,
            \<lparr> name = ''Other social protection'',
               amount = alloc_otherSocialProtection allocated \<rparr>,
            \<lparr> name = ''Education (schools)'', amount = alloc_education allocated \<rparr>,
            \<lparr> name = ''Defence (army)'', amount = alloc_defence allocated \<rparr>,
            \<lparr> name = ''Police (public order & safety)'',
               amount = alloc_police allocated \<rparr>,
            \<lparr> name = ''Economic affairs & subsidies'',
               amount = alloc_economicAffairs allocated \<rparr>,
            \<lparr> name = ''General public services'',
               amount = alloc_generalPublicServices allocated \<rparr>,
            \<lparr> name = ''Culture & recreation'', amount = alloc_culture allocated \<rparr>,
            \<lparr> name = ''Environmental protection'',
               amount = alloc_environment allocated \<rparr>,
            \<lparr> name = ''Housing & community amenities'',
               amount = alloc_housing allocated \<rparr>];
          totalAllocatedTax = foldl fadd (Fin 0) (Object_values allocated);
          totalContrib =
            fadd (fadd (fadd (fadd pensionContribution healthContribution)
              unemploymentContribution) parentalContribution) injuryContribution;
          total = fadd totalContrib totalAllocatedTax
      in Inr \<lparr>
           grossSalary = gross,
           netSalary = net,
           withheld = withheld',
           employeeContributions = totalEmployeeContrib,
           employerContributions = totalEmployerContrib,
           personalIncomeTax = personalIncomeTax',
           contributions = \<lparr>
             pension = pensionContribution,
             health = healthContribution,
             unemployment = unemploymentContribution,
             parental = parentalContribution,
             injury = injuryContribution \<rparr>,
           allocations = allocated,
           breakdown = finalBreakdown,
           totalCollected = total \<rparr>)"

text \<open>The share that multiplies \<open>personalIncomeTax\<close> in each of the thirteen
  allocations, in the order in which the allocations are made.\<close>

definition derived_shares :: "number list" where
  "derived_shares =
     [sharePensions, shareHealthcare, shareUnemployment, shareFamily, shareOtherSocial,
      general_education, general_defence, general_publicOrderAndSafety,
      general_economicAffairs, general_generalPublicServices,
      general_recreationCultureReligion, general_environmentalProtection,
      general_housingAndCommunity]"

section \<open>Notions of the specification\<close>

text \<open>\<open>Math.max\<close> on two numbers, by which the specification states the clamping of
  the tax: NaN when an operand is NaN, the larger operand otherwise.\<close>

fun fmax :: "number \<Rightarrow> number \<Rightarrow> number" where
  "fmax NaN _ = NaN"
| "fmax _ NaN = NaN"
| "fmax x y = (if flt x y then y else x)"

text \<open>The sum, in exact arithmetic, of a list of numbers that are all finite.\<close>

fun exact_sum :: "number list \<Rightarrow> rat option" where
  "exact_sum [] = Some 0"
| "exact_sum (Fin q # xs) = map_option ((+) q) (exact_sum xs)"
| "exact_sum (_ # xs) = None"

text \<open>The sums of rates that the calculation multiplies by the gross salary.\<close>

abbreviation pension_rate :: number where
  "pension_rate \<equiv> fadd pensionEmployee pensionEmployer"
abbreviation health_rate :: number where
  "health_rate \<equiv>
     fadd (fadd (fadd healthEmployee healthEmployer) longTermCareEmployee) longTermCareEmployer"
abbreviation unemployment_rate :: number where
  "unemployment_rate \<equiv> fadd unemploymentEmployee unemploymentEmployer"
abbreviation parental_rate :: number where
  "parental_rate \<equiv> fadd parentalEmployee parentalEmployer"
abbreviation employee_rate :: number where
  "employee_rate \<equiv>
     fadd (fadd (fadd (fadd pensionEmployee healthEmployee) unemploymentEmployee)
       parentalEmployee) longTermCareEmployee"
abbreviation employer_rate :: number where
  "employer_rate \<equiv>
     fadd (fadd (fadd (fadd (fadd pensionEmployer healthEmployer) unemploymentEmployer)
       parentalEmployer) injuryEmployer) longTermCareEmployer"

text \<open>All eleven rates of the table \<open>rates\<close>, in its order.\<close>

definition all_rates :: "number list" where
  "all_rates =
     [pensionEmployee, pensionEmployer, healthEmployee, healthEmployer,
      unemploymentEmployee, unemploymentEmployer, parentalEmployee, parentalEmployer,
      injuryEmployer, longTermCareEmployee, longTermCareEmployer]"

subsection \<open>Approximation up to rounding errors\<close>

text \<open>\<open>near k d x X\<close>: the value \<open>x\<close> differs from the non-negative exact quantity \<open>X\<close>
  by at most \<open>k\<close> relative errors of \<open>2\<^sup>-\<^sup>5\<^sup>2\<close> and \<open>d\<close> absolute errors of \<open>2\<^sup>-\<^sup>1\<^sup>0\<^sup>7\<^sup>0\<close>;
  \<open>approx\<close> says so of a number when it is finite.\<close>

definition tiny :: rat where
  "tiny = 1 / 2 ^ 1070"

definition near :: "rat \<Rightarrow> rat \<Rightarrow> rat \<Rightarrow> rat \<Rightarrow> bool" where
  "near k d x X = (0 \<le> X \<and> \<bar>x - X\<bar> \<le> k * (X / 2 ^ 52) + d * tiny)"

text \<open>The value of a finite number (zero for the others, which the lemmas exclude).\<close>

fun val :: "number \<Rightarrow> rat" where
  "val (Fin q) = q"
| "val _ = 0"

definition approx :: "rat \<Rightarrow> rat \<Rightarrow> number \<Rightarrow> rat \<Rightarrow> bool" where
  "approx k d v X = (case v of Fin x \<Rightarrow> near k d x X | _ \<Rightarrow> True)"

section \<open>Computing the rounding\<close>

lemma pow2_int_rat: "0 \<le> k \<Longrightarrow> (2::rat) powi k = of_int (2 ^ nat k)"
  by (simp add: power_int_def)

lemma pow2_pos [simp]: "0 < (2::rat) powi k"
  by (simp add: power_int_def)

lemma pow2_not_neg [simp]: "\<not> (2::rat) powi k < 0"
  using pow2_pos[of k] by (simp only: not_less less_imp_le)

lemma ilog2i_cond:
  assumes b: "0 < b"
  shows "(if 0 \<le> k then b * 2 ^ nat k \<le> a else b \<le> a * 2 ^ nat (- k))
     \<longleftrightarrow> 2 powi k * (of_int b :: rat) \<le> of_int a"
proof (cases "0 \<le> k")
  case True
  have "(b * 2 ^ nat k \<le> a) = ((of_int (b * 2 ^ nat k) :: rat) \<le> of_int a)"
    by (simp only: of_int_le_iff)
  then show ?thesis using True by (simp add: power_int_def mult.commute)
next
  case False
  have "(b \<le> a * 2 ^ nat (- k)) = ((of_int b :: rat) \<le> of_int (a * 2 ^ nat (- k)))"
    by (simp only: of_int_le_iff)
  then show ?thesis using False by (simp add: power_int_def field_simps)
qed

lemma bitlen_rat_bounds:
  assumes a: "0 < a"
  shows "2 powi (bitlen a - 1) \<le> (of_int a :: rat)" and "(of_int a :: rat) < 2 powi bitlen a"
proof -
  have la: "0 < bitlen a" "2 ^ nat (bitlen a - 1) \<le> a" "a < 2 ^ nat (bitlen a)"
    using bitlen_bounds[OF a] a by (auto simp: bitlen_alt_def intro: add_nonneg_pos)
  have "(of_int (2 ^ nat (bitlen a - 1)) :: rat) \<le> of_int a"
    using la(2) by (simp only: of_int_le_iff)
  then show "2 powi (bitlen a - 1) \<le> (of_int a :: rat)"
    using la(1) by (simp add: power_int_def)
  have "(of_int a :: rat) < of_int (2 ^ nat (bitlen a))"
    using la(3) by (simp only: of_int_less_iff)
  then show "(of_int a :: rat) < 2 powi bitlen a"
    using la(1) by (simp add: power_int_def)
qed

lemma ilog2i_bounds:
  assumes a: "0 < a" and b: "0 < b"
  shows "2 powi ilog2i a b \<le> (of_int a / of_int b :: rat)"
    and "(of_int a / of_int b :: rat) < 2 powi (ilog2i a b + 1)"
proof -
  define k where "k = bitlen a - bitlen b"
  define x :: rat where "x = of_int a / of_int b"
  have b': "0 < (of_int b :: rat)" using b by simp
  have lo: "2 powi (k - 1) \<le> x"
  proof -
    have "2 powi (k - 1) * (of_int b :: rat) \<le> 2 powi (k - 1) * 2 powi bitlen b"
      using bitlen_rat_bounds(2)[OF b] by (simp add: less_imp_le)
    also have "\<dots> = 2 powi (bitlen a - 1)"
      by (simp add: k_def power_int_add[symmetric])
    also have "\<dots> \<le> of_int a" by (rule bitlen_rat_bounds(1)[OF a])
    finally show ?thesis using b' by (simp add: x_def pos_le_divide_eq)
  qed
  have hi: "x < 2 powi (k + 1)"
  proof -
    have "(of_int a :: rat) < 2 powi bitlen a" by (rule bitlen_rat_bounds(2)[OF a])
    also have "\<dots> = 2 powi (k + 1) * 2 powi (bitlen b - 1)"
      by (simp add: k_def power_int_add[symmetric])
    also have "\<dots> \<le> 2 powi (k + 1) * of_int b"
      using bitlen_rat_bounds(1)[OF b] by simp
    finally show ?thesis using b' by (simp add: x_def pos_divide_less_eq)
  qed
  have c: "ilog2i a b = (if 2 powi k \<le> x then k else k - 1)"
    using b' unfolding ilog2i_def Let_def k_def[symmetric] ilog2i_cond[OF b]
    by (simp add: x_def pos_le_divide_eq)
  show "2 powi ilog2i a b \<le> (of_int a / of_int b :: rat)"
    using lo unfolding c x_def[symmetric] by simp
  show "(of_int a / of_int b :: rat) < 2 powi (ilog2i a b + 1)"
    using hi unfolding c x_def[symmetric] by (simp add: not_le)
qed

lemma ilog2_bounds:
  assumes "x \<noteq> 0"
  shows "2 powi ilog2 x \<le> \<bar>x\<bar>" and "\<bar>x\<bar> < 2 powi (ilog2 x + 1)"
proof -
  obtain a b where q: "quotient_of \<bar>x\<bar> = (a, b)" by (cases "quotient_of \<bar>x\<bar>")
  have b: "0 < b" using quotient_of_denom_pos[OF q] .
  have x: "\<bar>x\<bar> = of_int a / of_int b" using quotient_of_div[OF q] .
  have "0 < \<bar>x\<bar>" using assms by simp
  then have a: "0 < a" using b unfolding x by (simp add: zero_less_divide_iff)
  have e: "ilog2 x = ilog2i a b" by (simp add: ilog2_def q)
  show "2 powi ilog2 x \<le> \<bar>x\<bar>" unfolding e x by (rule ilog2i_bounds(1)[OF a b])
  show "\<bar>x\<bar> < 2 powi (ilog2 x + 1)" unfolding e x by (rule ilog2i_bounds(2)[OF a b])
qed

lemma pow2_less_imp: "(2::rat) powi a < 2 powi b \<Longrightarrow> a < b"
  using power_int_increasing[of b a "2::rat"] by (cases "a < b") auto

lemma ilog2_eqI:
  assumes "2 powi e \<le> \<bar>x\<bar>" and "\<bar>x\<bar> < 2 powi (e + 1)"
  shows "ilog2 x = e"
proof -
  have "0 < \<bar>x\<bar>" using assms(1) pow2_pos[of e] by linarith
  then have nz: "x \<noteq> 0" by auto
  have "2 powi e < (2::rat) powi (ilog2 x + 1)"
    using assms(1) ilog2_bounds(2)[OF nz] by linarith
  then have 1: "e < ilog2 x + 1" by (rule pow2_less_imp)
  have "2 powi ilog2 x < (2::rat) powi (e + 1)"
    using assms(2) ilog2_bounds(1)[OF nz] by linarith
  then have 2: "ilog2 x < e + 1" by (rule pow2_less_imp)
  show ?thesis using 1 2 by linarith
qed

lemma rne_frac:
  assumes b: "0 < b"
  shows "rne (of_int a / of_int b) = rne_i a b"
proof -
  have b': "0 < (of_int b :: rat)" using b by simp
  have f: "\<lfloor>(of_int a / of_int b :: rat)\<rfloor> = a div b"
    by (rule floor_divide_of_int_eq)
  have "(of_int a :: rat) = of_int (a div b) * of_int b + of_int (a mod b)"
    by (metis div_mult_mod_eq of_int_add of_int_mult)
  then have d: "(of_int a / of_int b :: rat) - of_int (a div b) = of_int (a mod b) / of_int b"
    using b' by (simp add: field_simps)
  have lt: "(of_int (a mod b) / of_int b < (1 / 2 :: rat)) = (2 * (a mod b) < b)"
  proof -
    have "(of_int (a mod b) / of_int b < (1 / 2 :: rat)) = ((of_int (2 * (a mod b)) :: rat) < of_int b)"
      using b' by (simp add: field_simps)
    then show ?thesis by (simp only: of_int_less_iff)
  qed
  have gt: "((1 / 2 :: rat) < of_int (a mod b) / of_int b) = (b < 2 * (a mod b))"
  proof -
    have "((1 / 2 :: rat) < of_int (a mod b) / of_int b) = ((of_int b :: rat) < of_int (2 * (a mod b)))"
      using b' by (simp add: field_simps)
    then show ?thesis by (simp only: of_int_less_iff)
  qed
  show ?thesis
    unfolding rne_def rne_i_def Let_def f d lt gt ..
qed

lemma round_mag_frac:
  assumes a: "0 < a" and b: "0 < b"
  shows "round_mag (of_int a / of_int b) = rm_int a b"
proof -
  define x :: rat where "x = of_int a / of_int b"
  have xpos: "0 < x" using a b by (simp add: x_def)
  have e: "ilog2 x = ilog2i a b"
    using ilog2i_bounds[OF a b] xpos
    by (intro ilog2_eqI) (simp_all add: x_def[symmetric])
  define q where "q = max (ilog2i a b) (- 1022) - 52"
  have u: "ulp_exp x = q" by (simp add: ulp_exp_def e q_def)
  have n: "rne (x / 2 powi q) = (if 0 \<le> q then rne_i a (b * 2 ^ nat q) else rne_i (a * 2 ^ nat (- q)) b)"
  proof (cases "0 \<le> q")
    case True
    have p: "0 < b * 2 ^ nat q" using b by simp
    have "x / 2 powi q = of_int a / of_int (b * 2 ^ nat q)"
      using True by (simp add: x_def power_int_def)
    then show ?thesis using True by (simp only: rne_frac[OF p] if_True)
  next
    case False
    have "x / 2 powi q = of_int (a * 2 ^ nat (- q)) / of_int b"
      using False by (simp add: x_def power_int_def field_simps)
    then show ?thesis using False by (simp only: rne_frac[OF b] if_False)
  qed
  show ?thesis
    unfolding x_def[symmetric] round_mag_def u n rm_int_def Let_def q_def[symmetric] ..
qed

lemma round_mag_numeral_frac: "round_mag (numeral a / numeral b) = rm_int (numeral a) (numeral b)"
  using round_mag_frac[of "numeral a" "numeral b"] by simp

lemma round_mag_numeral: "round_mag (numeral a) = rm_int (numeral a) 1"
  using round_mag_frac[of "numeral a" 1] by simp

lemma round_mag_one: "round_mag 1 = rm_int 1 1"
  using round_mag_frac[of 1 1] by simp

lemma round_mag_inverse_numeral: "round_mag (1 / numeral b) = rm_int 1 (numeral b)"
  using round_mag_frac[of 1 "numeral b"] by simp

lemma round_fin_pos: "0 < x \<Longrightarrow> round_fin x = round_mag x"
  by (simp add: round_fin_def)

lemma round_fin_neg: "x < 0 \<Longrightarrow> round_fin x = - round_mag (- x)"
  by (simp add: round_fin_def)

lemma round_fin_zero: "round_fin 0 = 0"
  by (simp add: round_fin_def)

lemma bitlen_numeral_Bit0: "bitlen (numeral (num.Bit0 k)) = bitlen (numeral k) + 1"
  by (subst compute_bitlen) simp

lemma bitlen_numeral_Bit1: "bitlen (numeral (num.Bit1 k)) = bitlen (numeral k) + 1"
  by (subst compute_bitlen) simp

lemma bitlen_one: "bitlen 1 = 1"
  by (subst compute_bitlen) simp

lemma bitlen_numeral_One: "bitlen (numeral num.One) = 1"
  by (simp add: bitlen_one)

lemmas fp_eval = round64_def round_fin_pos round_fin_neg round_fin_zero
  round_mag_numeral_frac round_mag_numeral round_mag_one round_mag_inverse_numeral
  rm_int_def ilog2i_def rne_i_def lit_def Let_def
  bitlen_numeral_Bit0 bitlen_numeral_Bit1 bitlen_one bitlen_numeral_One

subsection \<open>Significands and exponents\<close>

lemma rne_p_eq: "rne_p a s = rne_i a (2 ^ s)"
proof -
  have f: "drop_bit s a = a div 2 ^ s" by (rule drop_bit_eq_div)
  have r: "a - a div 2 ^ s * 2 ^ s = a mod 2 ^ s"
    by (simp add: minus_div_mult_eq_mod)
  show ?thesis unfolding rne_p_def rne_i_def Let_def f r ..
qed

lemma rne_of_int: "rne (of_int k) = k"
  by (simp add: rne_def)

lemma pow2_ge_iff:
  assumes n: "0 < n"
  shows "((2::rat) ^ 1024 \<le> of_int n * 2 powi F) = (1024 < bitlen n + F)"
proof -
  have b: "2 powi (bitlen n - 1) \<le> (of_int n :: rat)" "(of_int n :: rat) < 2 powi bitlen n"
    using bitlen_rat_bounds[OF n] by auto
  have p: "(2::rat) ^ 1024 = 2 powi 1024" by simp
  show ?thesis
  proof
    assume "(2::rat) ^ 1024 \<le> of_int n * 2 powi F"
    also have "\<dots> < 2 powi bitlen n * 2 powi F" using b(2) by simp
    finally have "(2::rat) powi 1024 < 2 powi (bitlen n + F)"
      unfolding p by (simp add: power_int_add)
    then show "1024 < bitlen n + F" by (rule pow2_less_imp)
  next
    assume "1024 < bitlen n + F"
    then have "(2::rat) powi 1024 \<le> 2 powi (bitlen n - 1 + F)"
      by (intro power_int_increasing) auto
    also have "\<dots> = 2 powi (bitlen n - 1) * 2 powi F" by (simp add: power_int_add)
    also have "\<dots> \<le> of_int n * 2 powi F" using b(1) by simp
    finally show "(2::rat) ^ 1024 \<le> of_int n * 2 powi F" unfolding p .
  qed
qed

lemma round_mag_pow:
  assumes a: "0 < a"
  shows "round_mag (of_int a * 2 powi E) =
    (let s = max (bitlen a - 53) (- 1074 - E) in
     if s \<le> 0 then of_int a * 2 powi E else of_int (rne_p a (nat s)) * 2 powi (E + s))"
proof -
  define x :: rat where "x = of_int a * 2 powi E"
  define s where "s = max (bitlen a - 53) (- 1074 - E)"
  have b: "2 powi (bitlen a - 1) \<le> (of_int a :: rat)" "(of_int a :: rat) < 2 powi bitlen a"
    using bitlen_rat_bounds[OF a] by auto
  have xpos: "0 < x" using a by (simp add: x_def)
  have "2 powi (bitlen a - 1 + E) \<le> x" "x < 2 powi (bitlen a - 1 + E + 1)"
    using b by (simp_all add: x_def power_int_add)
  then have e: "ilog2 x = bitlen a - 1 + E"
    using xpos by (intro ilog2_eqI) simp_all
  have u: "ulp_exp x = E + s" by (simp add: ulp_exp_def e s_def)
  have d: "x / 2 powi (E + s) = of_int a * 2 powi (- s)"
    by (simp add: x_def power_int_add power_int_minus field_simps)
  have n: "of_int (rne (x / 2 powi (E + s))) * 2 powi (E + s) =
     (if s \<le> 0 then x else of_int (rne_p a (nat s)) * 2 powi (E + s))"
  proof (cases "s \<le> 0")
    case True
    have "of_int a * (2::rat) powi (- s) = of_int (a * 2 ^ nat (- s))"
      using True by (simp add: power_int_def)
    then have "rne (x / 2 powi (E + s)) = a * 2 ^ nat (- s)"
      unfolding d by (simp only: rne_of_int)
    moreover have "of_int (a * 2 ^ nat (- s)) * (2::rat) powi (E + s) = x"
    proof -
      have q: "(of_int (2 ^ nat (- s)) :: rat) = 2 powi (- s)"
        using True by (simp add: power_int_def)
      have "of_int (a * 2 ^ nat (- s)) * (2::rat) powi (E + s)
          = of_int a * (2 powi (- s) * 2 powi (E + s))"
        unfolding q[symmetric] by simp
      also have "\<dots> = of_int a * 2 powi E"
        by (simp add: power_int_add[symmetric])
      finally show ?thesis by (simp add: x_def)
    qed
    ultimately show ?thesis using True by simp
  next
    case False
    have p: "(0::int) < 2 ^ nat s" by simp
    have "of_int a * (2::rat) powi (- s) = of_int a / of_int (2 ^ nat s)"
      using False by (simp add: power_int_def field_simps)
    then have "rne (x / 2 powi (E + s)) = rne_p a (nat s)"
      unfolding d rne_p_eq by (simp only: rne_frac[OF p])
    then show ?thesis using False by simp
  qed
  show ?thesis
    unfolding x_def[symmetric] round_mag_def u n Let_def s_def[symmetric] ..
qed

lemma rne_nonneg: "0 \<le> x \<Longrightarrow> 0 \<le> rne x"
  by (simp add: rne_def Let_def)

lemma round_mag_nonneg: "0 \<le> x \<Longrightarrow> 0 \<le> round_mag x"
  by (simp add: round_mag_def rne_nonneg)

lemma round64_pos:
  assumes "0 < x"
  shows "round64 x = (if 2 ^ 1024 \<le> round_mag x then PInf else Fin (round_mag x))"
proof -
  have "0 \<le> round_mag x" using assms by (simp add: round_mag_nonneg)
  then show ?thesis using assms by (simp add: round64_def round_fin_def Let_def)
qed

lemma round64_neg:
  assumes "x < 0"
  shows "round64 x = (if 2 ^ 1024 \<le> round_mag (- x) then NInf else Fin (- round_mag (- x)))"
proof -
  have "0 \<le> round_mag (- x)" using assms by (simp add: round_mag_nonneg)
  then show ?thesis using assms by (simp add: round64_def round_fin_def Let_def)
qed

lemma rne_p_nonneg: "0 \<le> a \<Longrightarrow> 0 \<le> rne_p a s"
  by (simp add: rne_p_def Let_def drop_bit_eq_div pos_imp_zdiv_nonneg_iff)

lemma rnd_fl_pos:
  assumes m: "0 < m"
  shows "rnd_fl m e =
    (let s = max (bitlen m - 53) (- 1074 - e) in
     if s \<le> 0 then (if 1024 < bitlen m + e then PInf else fl m e)
     else let n = rne_p m (nat s) in
       if 0 < n \<and> 1024 < bitlen n + (e + s) then PInf else fl n (e + s))"
proof -
  define s where "s = max (bitlen m - 53) (- 1074 - e)"
  define n where "n = rne_p m (nat s)"
  have x: "0 < (of_int m * 2 powi e :: rat)" using m by simp
  have n0: "0 \<le> n" using m by (simp add: n_def rne_p_nonneg)
  have ov: "((2::rat) ^ 1024 \<le> of_int n * 2 powi (e + s)) =
      (0 < n \<and> 1024 < bitlen n + (e + s))"
  proof (cases "n = 0")
    case True
    then show ?thesis by simp
  next
    case False
    then have "0 < n" using n0 by simp
    then show ?thesis using pow2_ge_iff[of n "e + s"] by simp
  qed
  show ?thesis
    unfolding rnd_fl_def round64_pos[OF x] round_mag_pow[OF m] Let_def s_def[symmetric]
      n_def[symmetric] fl_def
    using pow2_ge_iff[OF m, of e] ov by (simp add: Let_def)
qed

lemma rnd_fl_neg:
  assumes m: "m < 0"
  shows "rnd_fl m e =
    (let s = max (bitlen (- m) - 53) (- 1074 - e) in
     if s \<le> 0 then (if 1024 < bitlen (- m) + e then NInf else fl m e)
     else let n = rne_p (- m) (nat s) in
       if 0 < n \<and> 1024 < bitlen n + (e + s) then NInf else fl (- n) (e + s))"
proof -
  define s where "s = max (bitlen (- m) - 53) (- 1074 - e)"
  define n where "n = rne_p (- m) (nat s)"
  have m': "0 < - m" using m by simp
  have x: "(of_int m * 2 powi e :: rat) < 0" using m by (simp add: mult_less_0_iff)
  have mx: "- (of_int m * 2 powi e :: rat) = of_int (- m) * 2 powi e" by simp
  have n0: "0 \<le> n" using m by (simp add: n_def rne_p_nonneg)
  have ov: "((2::rat) ^ 1024 \<le> of_int n * 2 powi (e + s)) =
      (0 < n \<and> 1024 < bitlen n + (e + s))"
  proof (cases "n = 0")
    case True
    then show ?thesis by simp
  next
    case False
    then have "0 < n" using n0 by simp
    then show ?thesis using pow2_ge_iff[of n "e + s"] by simp
  qed
  show ?thesis
    unfolding rnd_fl_def round64_neg[OF x] mx round_mag_pow[OF m'] Let_def s_def[symmetric]
      n_def[symmetric] fl_def
    using pow2_ge_iff[OF m', of e] ov by (simp add: Let_def)
qed

lemma rnd_fl_zero: "rnd_fl 0 e = fl 0 0"
  by (simp add: rnd_fl_def fl_def round64_def round_fin_def)

lemma fl_align:
  "of_int m * (2::rat) powi e = of_int (m * 2 ^ nat (e - min e e')) * 2 powi (min e e')"
proof -
  have "(of_int (2 ^ nat (e - min e e')) :: rat) = 2 powi (e - min e e')"
    by (simp add: power_int_def)
  then have "of_int (m * 2 ^ nat (e - min e e')) * (2::rat) powi (min e e')
      = of_int m * (2 powi (e - min e e') * 2 powi (min e e'))"
    by simp
  also have "\<dots> = of_int m * 2 powi e" by (simp add: power_int_add[symmetric])
  finally show ?thesis by (rule sym)
qed

lemma fadd_fl:
  "fadd (fl m1 e1) (fl m2 e2) =
     rnd_fl (m1 * 2 ^ nat (e1 - min e1 e2) + m2 * 2 ^ nat (e2 - min e1 e2)) (min e1 e2)"
proof -
  have a1: "of_int m1 * (2::rat) powi e1 =
      of_int (m1 * 2 ^ nat (e1 - min e1 e2)) * 2 powi (min e1 e2)"
    by (rule fl_align)
  have a2: "of_int m2 * (2::rat) powi e2 =
      of_int (m2 * 2 ^ nat (e2 - min e1 e2)) * 2 powi (min e1 e2)"
    using fl_align[of m2 e2 e1] by (simp only: min.commute)
  have "of_int m1 * (2::rat) powi e1 + of_int m2 * 2 powi e2 =
     of_int (m1 * 2 ^ nat (e1 - min e1 e2) + m2 * 2 ^ nat (e2 - min e1 e2)) * 2 powi (min e1 e2)"
    unfolding a1 a2 by (simp only: of_int_add distrib_right)
  then show ?thesis unfolding fl_def rnd_fl_def fadd.simps by (simp only:)
qed

lemma fmul_fl: "fmul (fl m1 e1) (fl m2 e2) = rnd_fl (m1 * m2) (e1 + e2)"
  by (simp add: fl_def rnd_fl_def power_int_add mult_ac)

lemma fneg_fl: "fneg (fl m e) = fl (- m) e"
  by (simp add: fl_def)

lemma flt_fl:
  "flt (fl m1 e1) (fl m2 e2) = (m1 * 2 ^ nat (e1 - min e1 e2) < m2 * 2 ^ nat (e2 - min e1 e2))"
proof -
  have "((of_int m1 * (2::rat) powi e1) < of_int m2 * 2 powi e2) =
    ((of_int (m1 * 2 ^ nat (e1 - min e1 e2)) :: rat) < of_int (m2 * 2 ^ nat (e2 - min e1 e2)))"
    unfolding fl_align[of m1 e1 e2] fl_align[of m2 e2 e1] min.commute[of e2 e1]
    by (simp only: mult_less_cancel_right_pos[OF pow2_pos])
  then show ?thesis unfolding fl_def flt.simps by (simp only: of_int_less_iff)
qed

lemma fl_eq_iff:
  "(fl m1 e1 = fl m2 e2) = (m1 * 2 ^ nat (e1 - min e1 e2) = m2 * 2 ^ nat (e2 - min e1 e2))"
proof -
  have "((of_int m1 * (2::rat) powi e1) = of_int m2 * 2 powi e2) =
    ((of_int (m1 * 2 ^ nat (e1 - min e1 e2)) :: rat) = of_int (m2 * 2 ^ nat (e2 - min e1 e2)))"
    unfolding fl_align[of m1 e1 e2] fl_align[of m2 e2 e1] min.commute[of e2 e1]
    by simp
  then show ?thesis unfolding fl_def number.inject by (simp only: of_int_eq_iff)
qed

lemma fl_special [simp]:
  "fl m e \<noteq> NaN" "fl m e \<noteq> PInf" "fl m e \<noteq> NInf"
  "NaN \<noteq> fl m e" "PInf \<noteq> fl m e" "NInf \<noteq> fl m e"
  "isFinite (fl m e)"
  by (simp_all add: fl_def)

lemma fadd_fl_inf:
  "fadd (fl m e) PInf = PInf" "fadd PInf (fl m e) = PInf"
  "fadd (fl m e) NInf = NInf" "fadd NInf (fl m e) = NInf"
  by (simp_all add: fl_def)

lemma fmul_fl_inf:
  "fmul (fl m e) PInf = (if m = 0 then NaN else if 0 < m then PInf else NInf)"
  "fmul PInf (fl m e) = (if m = 0 then NaN else if 0 < m then PInf else NInf)"
  "fmul (fl m e) NInf = (if m = 0 then NaN else if 0 < m then NInf else PInf)"
  "fmul NInf (fl m e) = (if m = 0 then NaN else if 0 < m then NInf else PInf)"
  by (auto simp add: fl_def zero_less_mult_iff)

lemma flt_fl_inf:
  "flt (fl m e) PInf" "\<not> flt PInf (fl m e)" "\<not> flt (fl m e) NInf" "flt NInf (fl m e)"
  by (simp_all add: fl_def)

lemma Fin_fl:
  "Fin 0 = fl 0 0" "Fin 1 = fl 1 0" "Fin (numeral k) = fl (numeral k) 0"
  "Fin (- numeral k) = fl (- numeral k) 0"
  by (simp_all add: fl_def)

lemmas fl_eval = fadd_fl fmul_fl fneg_fl flt_fl fl_eq_iff fadd_fl_inf fmul_fl_inf flt_fl_inf
  Fin_fl rnd_fl_pos rnd_fl_neg rnd_fl_zero rne_p_def Let_def fsub_def fle_def
  bitlen_numeral_Bit0 bitlen_numeral_Bit1 bitlen_one bitlen_numeral_One


section \<open>The values of the constants\<close>

lemma pensionEmployee_val: "pensionEmployee = fl 5584463537939415 (- 55)"
  by (simp add: pensionEmployee_def fl_def fp_eval)

lemma pensionEmployer_val: "pensionEmployer = fl 3188548536178311 (- 55)"
  by (simp add: pensionEmployer_def fl_def fp_eval)

lemma healthEmployee_val: "healthEmployee = fl 4582862980812217 (- 56)"
  by (simp add: healthEmployee_def fl_def fp_eval)

lemma healthEmployer_val: "healthEmployer = fl 4726978168888073 (- 56)"
  by (simp add: healthEmployer_def fl_def fp_eval)

lemma unemploymentEmployee_val: "unemploymentEmployee = fl 6456360425798343 (- 62)"
  by (simp add: unemploymentEmployee_def fl_def fp_eval)

lemma unemploymentEmployer_val: "unemploymentEmployer = fl 5534023222112865 (- 63)"
  by (simp add: unemploymentEmployer_def fl_def fp_eval)

lemma parentalEmployee_val: "parentalEmployee = fl 1152921504606847 (- 60)"
  by (simp add: parentalEmployee_def fl_def fp_eval)

lemma parentalEmployer_val: "parentalEmployer = fl 1152921504606847 (- 60)"
  by (simp add: parentalEmployer_def fl_def fp_eval)

lemma injuryEmployer_val: "injuryEmployer = fl 6110483974416289 (- 60)"
  by (simp add: injuryEmployer_def fl_def fp_eval)

lemma longTermCareEmployee_val: "longTermCareEmployee = fl 5764607523034235 (- 59)"
  by (simp add: longTermCareEmployee_def fl_def fp_eval)

lemma longTermCareEmployer_val: "longTermCareEmployer = fl 5764607523034235 (- 59)"
  by (simp add: longTermCareEmployer_def fl_def fp_eval)

lemma general_socialProtection_val: "general_socialProtection = fl 3292954566249395 (- 53)"
  by (simp add: general_socialProtection_def fl_def fp_eval)

lemma general_health_val: "general_health = fl 2866807504734767 (- 54)"
  by (simp add: general_health_def fl_def fp_eval)

lemma general_economicAffairs_val: "general_economicAffairs = fl 4881320886440279 (- 55)"
  by (simp add: general_economicAffairs_def fl_def fp_eval)

lemma general_education_val: "general_education = fl 4183989331234525 (- 55)"
  by (simp add: general_education_def fl_def fp_eval)

lemma general_generalPublicServices_val: "general_generalPublicServices = fl 7128278119881043 (- 56)"
  by (simp add: general_generalPublicServices_def fl_def fp_eval)

lemma general_publicOrderAndSafety_val: "general_publicOrderAndSafety = fl 2479401085176015 (- 56)"
  by (simp add: general_publicOrderAndSafety_def fl_def fp_eval)

lemma general_recreationCultureReligion_val: "general_recreationCultureReligion = fl 1162219258676257 (- 55)"
  by (simp add: general_recreationCultureReligion_def fl_def fp_eval)

lemma general_defence_val: "general_defence = fl 7438203255528045 (- 58)"
  by (simp add: general_defence_def fl_def fp_eval)

lemma general_environmentalProtection_val: "general_environmentalProtection = fl 5578652441646033 (- 58)"
  by (simp add: general_environmentalProtection_def fl_def fp_eval)

lemma general_housingAndCommunity_val: "general_housingAndCommunity = fl 6198502712940037 (- 59)"
  by (simp add: general_housingAndCommunity_def fl_def fp_eval)

lemma social_sicknessAndDisability_val: "social_sicknessAndDisability = fl 7896045257076849 (- 57)"
  by (simp add: social_sicknessAndDisability_def fl_def fp_eval)

lemma social_oldAge_val: "social_oldAge = fl 3822293292521893 (- 54)"
  by (simp add: social_oldAge_def fl_def fp_eval)

lemma social_survivors_val: "social_survivors = fl 6958238035774799 (- 58)"
  by (simp add: social_survivors_def fl_def fp_eval)

lemma social_familyChildren_val: "social_familyChildren = fl 175990701018309 (- 52)"
  by (simp add: social_familyChildren_def fl_def fp_eval)

lemma social_unemployment_val: "social_unemployment = fl 7619076284982461 (- 60)"
  by (simp add: social_unemployment_def fl_def fp_eval)

lemma social_housing_val: "social_housing = fl 1632659203924813 (- 61)"
  by (simp add: social_housing_def fl_def fp_eval)

lemma social_socialExclusion_val: "social_socialExclusion = fl 6190499481548249 (- 58)"
  by (simp add: social_socialExclusion_def fl_def fp_eval)

lemma social_rAndD_val: "social_rAndD = fl 1243930822037953 (- 65)"
  by (simp add: social_rAndD_def fl_def fp_eval)

lemma social_other_val: "social_other = fl 7580203446793775 (- 60)"
  by (simp add: social_other_def fl_def fp_eval)

lemmas const_vals = pensionEmployee_val pensionEmployer_val healthEmployee_val
  healthEmployer_val unemploymentEmployee_val unemploymentEmployer_val
  parentalEmployee_val parentalEmployer_val injuryEmployer_val longTermCareEmployee_val
  longTermCareEmployer_val general_socialProtection_val general_health_val
  general_economicAffairs_val general_education_val general_generalPublicServices_val
  general_publicOrderAndSafety_val general_recreationCultureReligion_val
  general_defence_val general_environmentalProtection_val
  general_housingAndCommunity_val social_sicknessAndDisability_val social_oldAge_val
  social_survivors_val social_familyChildren_val social_unemployment_val
  social_housing_val social_socialExclusion_val social_rAndD_val social_other_val

lemma pension_rate_val: "pension_rate = fl 4386506037058863 (- 54)"
  by (simp add: const_vals fl_eval)

lemma health_rate_val: "health_rate = fl 5375496515229425 (- 55)"
  by (simp add: const_vals fl_eval)

lemma unemployment_rate_val: "unemployment_rate = fl 1152921504606847 (- 59)"
  by (simp add: const_vals fl_eval)

lemma parental_rate_val: "parental_rate = fl 1152921504606847 (- 59)"
  by (simp add: const_vals fl_eval)

lemma employee_rate_val: "employee_rate = fl 4161326055690339 (- 54)"
  by (simp add: const_vals fl_eval)

lemma employer_rate_val: "employer_rate = fl 6160924290242839 (- 55)"
  by (simp add: const_vals fl_eval)

lemma sharePensions_val: "sharePensions = fl 3822293292521893 (- 54)"
  by (simp add: sharePensions_def const_vals fl_eval)

lemma shareUnemployment_val: "shareUnemployment = fl 7619076284982461 (- 60)"
  by (simp add: shareUnemployment_def const_vals fl_eval)

lemma shareFamily_val: "shareFamily = fl 175990701018309 (- 52)"
  by (simp add: shareFamily_def const_vals fl_eval)

lemma shareOtherSocial_val: "shareOtherSocial = fl 7628794494529633 (- 57)"
  by (simp add: shareOtherSocial_def const_vals fl_eval)

lemma shareHealthcare_val: "shareHealthcare = fl 3853813161869373 (- 54)"
  by (simp add: shareHealthcare_def const_vals fl_eval)

lemma flatHealthContribution_val: "flatHealthContribution = fl 35 0"
  by (simp add: flatHealthContribution_def fl_eval)

lemmas rate_vals = pension_rate_val health_rate_val unemployment_rate_val parental_rate_val employee_rate_val employer_rate_val

lemmas share_vals = sharePensions_val shareUnemployment_val shareFamily_val shareOtherSocial_val shareHealthcare_val
  general_education_val general_defence_val general_publicOrderAndSafety_val
  general_economicAffairs_val general_generalPublicServices_val
  general_recreationCultureReligion_val general_environmentalProtection_val
  general_housingAndCommunity_val

text \<open>The whole report for a gross salary of 2000 and a net salary of 1400.\<close>

lemma run_2000:
  "calculateDistribution (Fin 1400) (Fin 2000) =
     Inr \<lparr>grossSalary = Fin 2000, netSalary = Fin 1400,
       withheld = Fin 600,
       employeeContributions = fl 8743316464074753 (- 44),
       employerContributions = Fin 342,
       personalIncomeTax = fl 1811995162574847 (- 44),
       contributions = \<lparr>pension = Fin 487,
         health = fl 5865234827208295 (- 44),
         unemployment = Fin 4,
         parental = Fin 4,
         injury = fl 5967269506265907 (- 49)\<rparr>,
       allocations = \<lparr>alloc_pensions = fl 3075751633826209 (- 47),
         alloc_healthcare = fl 6202230557383519 (- 48),
         alloc_unemployment = fl 6130975448071821 (- 53),
         alloc_familySupport = fl 2265880275610727 (- 49),
         alloc_otherSocialProtection = fl 6138795569816811 (- 50),
         alloc_education = fl 841700978744445 (- 46),
         alloc_defence = fl 93522330971605 (- 45),
         alloc_police = fl 3990286121455147 (- 50),
         alloc_economicAffairs = fl 1963968950403705 (- 47),
         alloc_generalPublicServices = fl 2868018149795887 (- 48),
         alloc_culture = fl 467611654858025 (- 47),
         alloc_environment = fl 8978143773274079 (- 52),
         alloc_housing = fl 4987857651818933 (- 52)\<rparr>,
       breakdown = [\<lparr>name = ''Pensions (old age)'', amount = fl 2237965889464717 (- 42)\<rparr>,
         \<lparr>name = ''Healthcare & medical system'', amount = fl 6439351409115575 (- 44)\<rparr>,
         \<lparr>name = ''Unemployment insurance'', amount = fl 2634985779189737 (- 49)\<rparr>,
         \<lparr>name = ''Parental & family support'', amount = fl 4517680089295975 (- 49)\<rparr>,
         \<lparr>name = ''Other social protection'', amount = fl 6138795569816811 (- 50)\<rparr>,
         \<lparr>name = ''Education (schools)'', amount = fl 841700978744445 (- 46)\<rparr>,
         \<lparr>name = ''Defence (army)'', amount = fl 93522330971605 (- 45)\<rparr>,
         \<lparr>name = ''Police (public order & safety)'', amount = fl 3990286121455147 (- 50)\<rparr>,
         \<lparr>name = ''Economic affairs & subsidies'', amount = fl 1963968950403705 (- 47)\<rparr>,
         \<lparr>name = ''General public services'', amount = fl 2868018149795887 (- 48)\<rparr>,
         \<lparr>name = ''Culture & recreation'', amount = fl 467611654858025 (- 47)\<rparr>,
         \<lparr>name = ''Environmental protection'', amount = fl 8978143773274079 (- 52)\<rparr>,
         \<lparr>name = ''Housing & community amenities'', amount = fl 4987857651818933 (- 52)\<rparr>],
       totalCollected = fl 8283971245024695 (- 43)\<rparr>"
  by (simp add: calculateDistribution_def const_vals share_vals
      flatHealthContribution_val Object_values_def fl_eval)


text \<open>The whole report for a gross salary of 3000 and a net salary of 1900.\<close>

lemma run_3000:
  "calculateDistribution (Fin 1900) (Fin 3000) =
     Inr \<lparr>grossSalary = Fin 3000, netSalary = Fin 1900,
       withheld = Fin 1100,
       employeeContributions = fl 6403555720167425 (- 43),
       employerContributions = Fin 513,
       personalIncomeTax = fl 3272146604261375 (- 43),
       contributions = \<lparr>pension = fl 1461 (- 1),
         health = fl 8489988985035163 (- 44),
         unemployment = Fin 6,
         parental = Fin 6,
         injury = fl 8950904259398861 (- 49)\<rparr>,
       allocations = \<lparr>alloc_pensions = fl 2777134970347937 (- 45),
         alloc_healthcare = fl 5600072250841431 (- 46),
         alloc_unemployment = fl 345983444581723 (- 47),
         alloc_familySupport = fl 4091783798675683 (- 48),
         alloc_otherSocialProtection = fl 5542795999931685 (- 48),
         alloc_education = fl 6079859496950167 (- 47),
         alloc_defence = fl 2702159776422297 (- 48),
         alloc_police = fl 7205759403792791 (- 49),
         alloc_economicAffairs = fl 443323088319283 (- 43),
         alloc_generalPublicServices = fl 5179139571476069 (- 47),
         alloc_culture = fl 3377699720527871 (- 48),
         alloc_environment = fl 8106479329266889 (- 50),
         alloc_housing = fl 9007199254740989 (- 51)\<rparr>,
       breakdown = [\<lparr>name = ''Pensions (old age)'', amount = fl 889978711913741 (- 40)\<rparr>,
         \<lparr>name = ''Healthcare & medical system'', amount = fl 5084861402925867 (- 43)\<rparr>,
         \<lparr>name = ''Unemployment insurance'', amount = fl 1190408374713691 (- 47)\<rparr>,
         \<lparr>name = ''Parental & family support'', amount = fl 5780633658939619 (- 48)\<rparr>,
         \<lparr>name = ''Other social protection'', amount = fl 5542795999931685 (- 48)\<rparr>,
         \<lparr>name = ''Education (schools)'', amount = fl 6079859496950167 (- 47)\<rparr>,
         \<lparr>name = ''Defence (army)'', amount = fl 2702159776422297 (- 48)\<rparr>,
         \<lparr>name = ''Police (public order & safety)'', amount = fl 7205759403792791 (- 49)\<rparr>,
         \<lparr>name = ''Economic affairs & subsidies'', amount = fl 443323088319283 (- 43)\<rparr>,
         \<lparr>name = ''General public services'', amount = fl 5179139571476069 (- 47)\<rparr>,
         \<lparr>name = ''Culture & recreation'', amount = fl 3377699720527871 (- 48)\<rparr>,
         \<lparr>name = ''Environmental protection'', amount = fl 8106479329266889 (- 50)\<rparr>,
         \<lparr>name = ''Housing & community amenities'', amount = fl 9007199254740989 (- 51)\<rparr>],
       totalCollected = fl 7090530585201869 (- 42)\<rparr>"
  by (simp add: calculateDistribution_def const_vals share_vals
      flatHealthContribution_val Object_values_def fl_eval)

text \<open>The whole report for a gross salary of \<open>2\<^sup>1\<^sup>0\<^sup>2\<^sup>3\<close> (about 8.99e307) and a net
  salary of \<open>- 3748994332910265 * 2\<^sup>9\<^sup>7\<^sup>1\<close> (-7.482394009839534e307).\<close>

lemma run_big:
  "calculateDistribution (fl (- 3748994332910265) 971) (fl 1 1023) =
     Inr \<lparr>grossSalary = fl 1 1023, netSalary = fl (- 3748994332910265) 971,
       withheld = fl 8252593960280761 971,
       employeeContributions = fl 4161326055690339 969,
       employerContributions = fl 6160924290242839 968,
       personalIncomeTax = fl 225383201448693 976,
       contributions = \<lparr>pension = fl 4386506037058863 969,
         health = fl 5375496515229425 968,
         unemployment = fl 1152921504606847 964,
         parental = fl 1152921504606847 964,
         injury = fl 6110483974416289 963\<rparr>,
       allocations = \<lparr>alloc_pensions = fl 1530297131936553 971,
         alloc_healthcare = fl 3085832916153313 970,
         alloc_unemployment = fl 1525190467425085 966,
         alloc_familySupport = fl 4509427938126719 967,
         alloc_otherSocialProtection = fl 763567931714727 970,
         alloc_education = fl 6700424466294047 968,
         alloc_defence = fl 2977966429464021 967,
         alloc_police = fl 992655476488007 969,
         alloc_economicAffairs = fl 3908580938671527 969,
         alloc_generalPublicServices = fl 713471123725755 971,
         alloc_culture = fl 1861229018415013 968,
         alloc_environment = fl 4466949644196031 966,
         alloc_housing = fl 4963277382440035 965\<rparr>,
       breakdown = [\<lparr>name = ''Pensions (old age)'', amount = fl 2626923641201269 971\<rparr>,
         \<lparr>name = ''Healthcare & medical system'', amount = fl 8954890402021593 969\<rparr>,
         \<lparr>name = ''Unemployment insurance'', amount = fl 7253683374307187 964\<rparr>,
         \<lparr>name = ''Parental & family support'', amount = fl 4653543126202575 967\<rparr>,
         \<lparr>name = ''Other social protection'', amount = fl 763567931714727 970\<rparr>,
         \<lparr>name = ''Education (schools)'', amount = fl 6700424466294047 968\<rparr>,
         \<lparr>name = ''Defence (army)'', amount = fl 2977966429464021 967\<rparr>,
         \<lparr>name = ''Police (public order & safety)'', amount = fl 992655476488007 969\<rparr>,
         \<lparr>name = ''Economic affairs & subsidies'', amount = fl 3908580938671527 969\<rparr>,
         \<lparr>name = ''General public services'', amount = fl 713471123725755 971\<rparr>,
         \<lparr>name = ''Culture & recreation'', amount = fl 1861229018415013 968\<rparr>,
         \<lparr>name = ''Environmental protection'', amount = fl 4466949644196031 966\<rparr>,
         \<lparr>name = ''Housing & community amenities'', amount = fl 4963277382440035 965\<rparr>],
       totalCollected = PInf\<rparr>"
  by (simp add: calculateDistribution_def const_vals share_vals
      flatHealthContribution_val Object_values_def fl_eval)

section \<open>The fields of the report\<close>

lemma calc_accepted:
  "calculateDistribution net gross = Inr r \<Longrightarrow>
     isFinite net \<and> isFinite gross \<and> \<not> fle gross (Fin 0)"
  by (simp add: calculateDistribution_def split: if_splits)

lemma calc_defined:
  "isFinite net \<Longrightarrow> isFinite gross \<Longrightarrow> \<not> fle gross (Fin 0) \<Longrightarrow>
     \<exists>r. calculateDistribution net gross = Inr r"
  by (simp add: calculateDistribution_def Let_def)

lemma positive_not_fle: "isFinite gross \<Longrightarrow> flt (Fin 0) gross \<Longrightarrow> \<not> fle gross (Fin 0)"
  by (simp add: fle_def)

lemma calc_withheld:
  "calculateDistribution net gross = Inr r \<Longrightarrow> withheld r = fsub gross net"
  by (auto simp: calculateDistribution_def Let_def split: if_splits)

lemma calc_employeeContributions:
  "calculateDistribution net gross = Inr r \<Longrightarrow>
     employeeContributions r = fadd (fmul gross employee_rate) flatHealthContribution"
  by (auto simp: calculateDistribution_def Let_def split: if_splits)

lemma clamp_fmax: "(if flt p (Fin 0) then Fin 0 else p) = fmax (Fin 0) p"
  by (cases p) auto

lemma calc_personalIncomeTax:
  "calculateDistribution net gross = Inr r \<Longrightarrow>
     personalIncomeTax r =
       fmax (Fin 0) (fsub (fsub gross net) (fadd (fmul gross employee_rate) flatHealthContribution))"
  by (auto simp: calculateDistribution_def Let_def clamp_fmax split: if_splits)

lemma calc_allocations:
  "calculateDistribution net gross = Inr r \<Longrightarrow>
     Object_values (allocations r) = map (fmul (personalIncomeTax r)) derived_shares"
  by (auto simp: calculateDistribution_def Let_def Object_values_def derived_shares_def
      split: if_splits)

lemma derived_shares_val:
  "derived_shares =
     [fl 3822293292521893 (- 54), fl 3853813161869373 (- 54), fl 7619076284982461 (- 60),
      fl 175990701018309 (- 52), fl 7628794494529633 (- 57), fl 4183989331234525 (- 55),
      fl 7438203255528045 (- 58), fl 2479401085176015 (- 56), fl 4881320886440279 (- 55),
      fl 7128278119881043 (- 56), fl 1162219258676257 (- 55), fl 5578652441646033 (- 58),
      fl 6198502712940037 (- 59)]"
  by (simp add: derived_shares_def share_vals fl_eval)

lemma exact_sum_fl:
  "exact_sum (fl m e # xs) = map_option ((+) (of_int m * 2 powi e)) (exact_sum xs)"
  by (simp add: fl_def)

section \<open>Properties of the rounding\<close>

lemma rne_cases: "rne x = \<lfloor>x\<rfloor> \<or> rne x = \<lfloor>x\<rfloor> + 1"
  by (simp add: rne_def Let_def)

lemma rne_error: "\<bar>of_int (rne x) - x\<bar> \<le> 1 / 2"
proof -
  have "of_int \<lfloor>x\<rfloor> \<le> x" "x < of_int \<lfloor>x\<rfloor> + 1" by linarith+
  then show ?thesis by (auto simp: rne_def Let_def abs_le_iff)
qed

lemma rne_mono:
  assumes "x \<le> y"
  shows "rne x \<le> rne y"
proof (cases "\<lfloor>x\<rfloor> = \<lfloor>y\<rfloor>")
  case True
  then show ?thesis using assms by (auto simp: rne_def Let_def)
next
  case False
  then have "\<lfloor>x\<rfloor> + 1 \<le> \<lfloor>y\<rfloor>" using floor_mono[OF assms] by linarith
  moreover have "rne x \<le> \<lfloor>x\<rfloor> + 1" using rne_cases[of x] by auto
  moreover have "\<lfloor>y\<rfloor> \<le> rne y" using rne_cases[of y] by auto
  ultimately show ?thesis by linarith
qed

lemma rne_le_int: "x \<le> of_int k \<Longrightarrow> rne x \<le> k"
  using rne_mono[of x "of_int k"] by (simp add: rne_of_int)

lemma rne_ge_int: "of_int k \<le> x \<Longrightarrow> k \<le> rne x"
  using rne_mono[of "of_int k" x] by (simp add: rne_of_int)

text \<open>A positive \<open>x\<close> lies below \<open>2 powi (ulp_exp x + 53)\<close>, and at or above
  \<open>2 powi (ulp_exp x + 52)\<close> unless it is subnormal; its rounding stays within these bounds.\<close>

lemma ulp_exp_eq: "ulp_exp x = max (ilog2 x) (- 1022) - 52"
  by (simp add: ulp_exp_def)

lemma below_next_binade:
  assumes "0 < x"
  shows "x < 2 powi (ulp_exp x + 53)"
proof -
  have "x < 2 powi (ilog2 x + 1)" using ilog2_bounds(2)[of x] assms by simp
  also have "\<dots> \<le> 2 powi (ulp_exp x + 53)"
    by (intro power_int_increasing) (auto simp: ulp_exp_def)
  finally show ?thesis .
qed

lemma above_binade:
  assumes "0 < x" and "- 1022 \<le> ilog2 x"
  shows "2 powi (ulp_exp x + 52) \<le> x"
proof -
  have "ulp_exp x + 52 = ilog2 x" using assms(2) by (simp add: ulp_exp_def)
  then show ?thesis using ilog2_bounds(1)[of x] assms by simp
qed

lemma pow2_of_int: "0 \<le> k \<Longrightarrow> (2::rat) powi k = of_int (2 ^ nat k)"
  by (simp add: power_int_def)

lemma round_mag_le_binade:
  assumes "0 < x"
  shows "round_mag x \<le> 2 powi (ulp_exp x + 53)"
proof -
  have "x / 2 powi ulp_exp x \<le> 2 powi (ulp_exp x + 53) / 2 powi ulp_exp x"
    using below_next_binade[OF assms] by (simp add: divide_le_cancel less_imp_le)
  also have "\<dots> = 2 powi 53" by (simp add: power_int_add)
  also have "\<dots> = of_int (2 ^ 53)" by simp
  finally have "rne (x / 2 powi ulp_exp x) \<le> 2 ^ 53" by (rule rne_le_int)
  then have "(of_int (rne (x / 2 powi ulp_exp x)) :: rat) \<le> of_int (2 ^ 53)"
    by (simp only: of_int_le_iff)
  then have "round_mag x \<le> of_int (2 ^ 53) * 2 powi ulp_exp x"
    unfolding round_mag_def by (simp only: mult_le_cancel_right_pos[OF pow2_pos])
  also have "\<dots> = 2 powi (ulp_exp x + 53)" by (simp add: power_int_add)
  finally show ?thesis .
qed

lemma round_mag_ge_binade:
  assumes "0 < x" and "- 1022 \<le> ilog2 x"
  shows "2 powi (ulp_exp x + 52) \<le> round_mag x"
proof -
  have "2 powi (ulp_exp x + 52) / 2 powi ulp_exp x \<le> x / 2 powi ulp_exp x"
    using above_binade[OF assms] by (simp add: divide_le_cancel)
  moreover have "2 powi (ulp_exp x + 52) / 2 powi ulp_exp x = (of_int (2 ^ 52) :: rat)"
    by (simp add: power_int_add)
  ultimately have "2 ^ 52 \<le> rne (x / 2 powi ulp_exp x)" by (simp only: rne_ge_int)
  then have "(of_int (2 ^ 52) :: rat) \<le> of_int (rne (x / 2 powi ulp_exp x))"
    by (simp only: of_int_le_iff)
  then have "of_int (2 ^ 52) * 2 powi ulp_exp x \<le> round_mag x"
    unfolding round_mag_def by (simp only: mult_le_cancel_right_pos[OF pow2_pos])
  moreover have "of_int (2 ^ 52) * 2 powi ulp_exp x = (2::rat) powi (ulp_exp x + 52)"
    by (simp add: power_int_add)
  ultimately show ?thesis by simp
qed

lemma ilog2_mono:
  assumes "0 < x" and "x \<le> y"
  shows "ilog2 x \<le> ilog2 y"
proof -
  have "2 powi ilog2 x \<le> x" using ilog2_bounds(1)[of x] assms by simp
  also have "\<dots> \<le> y" by fact
  also have "\<dots> < 2 powi (ilog2 y + 1)" using ilog2_bounds(2)[of y] assms by simp
  finally have "ilog2 x < ilog2 y + 1" by (rule pow2_less_imp)
  then show ?thesis by simp
qed

lemma round_mag_mono:
  assumes "0 < x" and "x \<le> y"
  shows "round_mag x \<le> round_mag y"
proof (cases "ulp_exp x = ulp_exp y")
  case True
  have "x / 2 powi ulp_exp y \<le> y / 2 powi ulp_exp y"
    using assms(2) by (simp add: divide_le_cancel)
  then have "rne (x / 2 powi ulp_exp y) \<le> rne (y / 2 powi ulp_exp y)" by (rule rne_mono)
  then have "(of_int (rne (x / 2 powi ulp_exp y)) :: rat) \<le> of_int (rne (y / 2 powi ulp_exp y))"
    by (simp only: of_int_le_iff)
  then show ?thesis
    unfolding round_mag_def True by (simp only: mult_le_cancel_right_pos[OF pow2_pos])
next
  case False
  have y: "0 < y" using assms by simp
  have le: "ilog2 x \<le> ilog2 y" by (rule ilog2_mono[OF assms])
  then have lt: "ulp_exp x < ulp_exp y" and big: "- 1022 \<le> ilog2 y"
    using False by (auto simp: ulp_exp_def max_def split: if_splits)
  have "round_mag x \<le> 2 powi (ulp_exp x + 53)" by (rule round_mag_le_binade[OF assms(1)])
  also have "\<dots> \<le> 2 powi (ulp_exp y + 52)"
    using lt by (intro power_int_increasing) auto
  also have "\<dots> \<le> round_mag y" by (rule round_mag_ge_binade[OF y big])
  finally show ?thesis .
qed

lemma round_mag_error:
  "\<bar>round_mag x - x\<bar> \<le> 2 powi ulp_exp x / 2"
proof -
  define p where "p = (2::rat) powi ulp_exp x"
  have p: "0 < p" by (simp add: p_def)
  have "round_mag x - x = (of_int (rne (x / p)) - x / p) * p"
    using p by (simp add: round_mag_def p_def[symmetric] left_diff_distrib)
  then have "\<bar>round_mag x - x\<bar> = \<bar>of_int (rne (x / p)) - x / p\<bar> * p"
    using p by (simp add: abs_mult)
  also have "\<dots> \<le> 1 / 2 * p"
    using p by (intro mult_right_mono rne_error) simp
  finally show ?thesis by (simp add: p_def)
qed

lemma half_ulp_bound:
  assumes "0 < x"
  shows "(2::rat) powi ulp_exp x / 2 \<le> x / 2 ^ 53
    \<or> (2::rat) powi ulp_exp x / 2 = 1 / 2 ^ 1075"
proof (cases "- 1022 \<le> ilog2 x")
  case True
  have "(2::rat) powi ulp_exp x = 2 powi (ulp_exp x + 52) / 2 ^ 52"
    by (simp add: power_int_add)
  also have "\<dots> \<le> x / 2 ^ 52"
    using above_binade[OF assms True] by (simp add: divide_le_cancel)
  finally show ?thesis by simp
next
  case False
  then have "ulp_exp x = - 1074" by (simp add: ulp_exp_def)
  then show ?thesis by simp
qed

lemma round_mag_rel_error:
  assumes "0 < x"
  shows "\<bar>round_mag x - x\<bar> \<le> x / 2 ^ 53 + 1 / 2 ^ 1075"
proof -
  have "0 \<le> x / 2 ^ 53" using assms by simp
  then show ?thesis
    using round_mag_error[of x] half_ulp_bound[OF assms] by auto
qed

lemma round_fin_nonneg: "0 \<le> x \<Longrightarrow> 0 \<le> round_fin x"
  by (simp add: round_fin_def round_mag_nonneg)

lemma round_fin_nonpos: "x \<le> 0 \<Longrightarrow> round_fin x \<le> 0"
  by (simp add: round_fin_def round_mag_nonneg)

lemma round_fin_mono:
  assumes "x \<le> y"
  shows "round_fin x \<le> round_fin y"
proof -
  consider "x \<le> 0" "0 \<le> y" | "0 < x" | "y < 0" by linarith
  then show ?thesis
  proof cases
    case 1
    then show ?thesis using round_fin_nonpos[of x] round_fin_nonneg[of y] by linarith
  next
    case 2
    then have "0 < y" using assms by simp
    then show ?thesis using 2 round_mag_mono[OF 2 assms] by (simp add: round_fin_def)
  next
    case 3
    then have x: "x < 0" using assms by simp
    have "round_mag (- y) \<le> round_mag (- x)"
      using 3 assms by (intro round_mag_mono) simp_all
    then show ?thesis using 3 x by (simp add: round_fin_def)
  qed
qed

lemma round_fin_error: "\<bar>round_fin x - x\<bar> \<le> \<bar>x\<bar> / 2 ^ 53 + 1 / 2 ^ 1075"
proof -
  consider "x = 0" | "0 < x" | "x < 0" by linarith
  then show ?thesis
  proof cases
    case 1
    then show ?thesis by (simp add: round_fin_def)
  next
    case 2
    then show ?thesis using round_mag_rel_error[OF 2] by (simp add: round_fin_def)
  next
    case 3
    then have "0 < - x" by simp
    from round_mag_rel_error[OF this] have "\<bar>round_mag (- x) + x\<bar> \<le> - x / 2 ^ 53 + 1 / 2 ^ 1075"
      by simp
    moreover have "\<bar>- round_mag (- x) - x\<bar> = \<bar>round_mag (- x) + x\<bar>"
      by (simp add: abs_if)
    ultimately show ?thesis using 3 by (simp add: round_fin_def)
  qed
qed

text \<open>The comparison \<open><=\<close> of numbers and the rounding.\<close>

lemma fle_Fin [simp]: "fle (Fin a) (Fin b) = (a \<le> b)"
  by (auto simp: fle_def)

lemma fle_PInf [simp]: "fle x PInf = (x \<noteq> NaN)"
  by (cases x) (auto simp: fle_def)

lemma fle_NInf [simp]: "fle NInf x = (x \<noteq> NaN)"
  by (cases x) (auto simp: fle_def)

lemma fle_refl: "x \<noteq> NaN \<Longrightarrow> fle x x"
  by (cases x) (auto simp: fle_def)

lemma fle_trans: "fle x y \<Longrightarrow> fle y z \<Longrightarrow> fle x z"
  by (cases x; cases y; cases z) (auto simp: fle_def)

lemma round64_cases:
  "round64 x = Fin (round_fin x) \<and> \<bar>round_fin x\<bar> < 2 ^ 1024
   \<or> round64 x = PInf \<and> 2 ^ 1024 \<le> round_fin x
   \<or> round64 x = NInf \<and> round_fin x \<le> - (2 ^ 1024)"
  by (auto simp: round64_def Let_def)

lemma round64_not_NaN [simp]: "round64 x \<noteq> NaN"
  using round64_cases[of x] by auto

lemma round64_mono:
  assumes "x \<le> y"
  shows "fle (round64 x) (round64 y)"
  using round_fin_mono[OF assms] round64_cases[of x] round64_cases[of y] by auto

lemma round64_zero [simp]: "round64 0 = Fin 0"
  by (simp add: round64_def round_fin_def)

lemma round64_nonneg: "0 \<le> x \<Longrightarrow> fle (Fin 0) (round64 x)"
  using round64_mono[of 0 x] by simp

lemma round64_bounded:
  assumes "\<bar>x\<bar> \<le> b" and "round64 b = Fin b"
  shows "\<exists>r. round64 x = Fin r \<and> \<bar>r\<bar> \<le> b"
proof -
  have b: "round_fin b = b" "b < 2 ^ 1024"
    using round64_cases[of b] assms(2) by auto
  have nb: "round_fin (- b) = - b"
    using b(1) by (auto simp: round_fin_def)
  have "round_fin x \<le> b" using round_fin_mono[of x b] assms(1) b(1) by simp
  moreover have "- b \<le> round_fin x" using round_fin_mono[of "- b" x] assms(1) nb by simp
  ultimately have "\<bar>round_fin x\<bar> \<le> b" by (simp add: abs_le_iff)
  then show ?thesis using round64_cases[of x] b(2) by auto
qed

lemma fle_simps [simp]:
  "fle NaN x = False" "fle x NaN = False" "fle PInf (Fin b) = False"
  "fle (Fin a) NInf = False" "fle PInf NInf = False"
  by (cases x; simp add: fle_def)+

lemma fadd_not_NaN:
  "fadd (Fin a) x = NaN \<longleftrightarrow> x = NaN"
  by (cases x) auto

lemma fadd_mono_left:
  assumes "fle a b"
  shows "fle (fadd a (Fin k)) (fadd b (Fin k))"
  using assms by (cases a; cases b) (auto simp: round64_mono)

lemma fadd_nonneg:
  assumes "fle (Fin 0) a" and "fle (Fin 0) b"
  shows "fle (Fin 0) (fadd a b)"
  using assms by (cases a; cases b) (auto simp: round64_nonneg)

lemma fmul_nonneg:
  assumes "fle (Fin 0) a" and "0 < s"
  shows "fle (Fin 0) (fmul a (Fin s))"
  using assms by (cases a) (auto simp: round64_nonneg)

lemma fmul_mono_left:
  assumes "a \<le> b" and "0 \<le> c"
  shows "fle (fmul (Fin a) (Fin c)) (fmul (Fin b) (Fin c))"
  using assms by (simp add: round64_mono mult_right_mono)

lemma fmax_nonneg: "d \<noteq> NaN \<Longrightarrow> fle (Fin 0) (fmax (Fin 0) d)"
  by (cases d) auto

lemma is_number_bound: "is_number (Fin g) \<Longrightarrow> \<bar>g\<bar> < 2 ^ 1024"
  using round64_cases[of g] by auto

lemma round64_pow_1022: "round64 (2 ^ 1022) = Fin (2 ^ 1022)"
proof -
  have "rnd_fl 1 1022 = fl 1 1022" by (simp add: fl_eval)
  then show ?thesis by (simp add: rnd_fl_def fl_def)
qed

lemma round64_pow_1023: "round64 (2 ^ 1023) = Fin (2 ^ 1023)"
proof -
  have "rnd_fl 1 1023 = fl 1 1023" by (simp add: fl_eval)
  then show ?thesis by (simp add: rnd_fl_def fl_def)
qed

lemma round_fin_35: "round_fin 35 = 35"
proof -
  have "rnd_fl 35 0 = fl 35 0" by (simp add: fl_eval)
  then have "round64 35 = Fin 35" by (simp add: rnd_fl_def fl_def)
  then show ?thesis using round64_cases[of 35] by auto
qed

text \<open>A quarter of a binary64 value is far from overflow.\<close>

lemma fmul_quarter:
  assumes "0 \<le> g" and "g < 2 ^ 1024" and "0 \<le> c" and "c \<le> 1 / 4"
  shows "\<exists>t. fmul (Fin g) (Fin c) = Fin t \<and> 0 \<le> t \<and> t \<le> 2 ^ 1022"
proof -
  have "g * c \<le> 2 ^ 1024 * (1 / 4)"
    using assms by (intro mult_mono) simp_all
  then have "\<bar>g * c\<bar> \<le> 2 ^ 1022" using assms by simp
  from round64_bounded[OF this round64_pow_1022]
  obtain t where t: "round64 (g * c) = Fin t" "\<bar>t\<bar> \<le> 2 ^ 1022" by blast
  have "fle (Fin 0) (round64 (g * c))" using assms by (intro round64_nonneg) simp
  then show ?thesis using t by auto
qed

lemma fadd_flat:
  assumes "0 \<le> t" and "t \<le> 2 ^ 1022"
  shows "\<exists>u. fadd (Fin t) (Fin 35) = Fin u \<and> 35 \<le> u \<and> u \<le> 2 ^ 1023"
proof -
  have "\<bar>t + 35\<bar> \<le> 2 ^ 1023" using assms by simp
  from round64_bounded[OF this round64_pow_1023]
  obtain u where u: "round64 (t + 35) = Fin u" "\<bar>u\<bar> \<le> 2 ^ 1023" by blast
  have "round_fin 35 \<le> round_fin (t + 35)" using assms by (intro round_fin_mono) simp
  moreover have "u = round_fin (t + 35)" using u(1) round64_cases[of "t + 35"] by auto
  ultimately show ?thesis using u by (auto simp: round_fin_35)
qed

lemma small_pos_fl:
  "0 < m \<Longrightarrow> of_int m * (2::rat) powi e \<le> 1 / 4 \<Longrightarrow>
     \<exists>c. fl m e = Fin c \<and> 0 < c \<and> c \<le> 1 / 4"
  by (simp add: fl_def)

lemma rate_bounds:
  "\<exists>c. pension_rate = Fin c \<and> 0 < c \<and> c \<le> 1 / 4"
  "\<exists>c. health_rate = Fin c \<and> 0 < c \<and> c \<le> 1 / 4"
  "\<exists>c. unemployment_rate = Fin c \<and> 0 < c \<and> c \<le> 1 / 4"
  "\<exists>c. parental_rate = Fin c \<and> 0 < c \<and> c \<le> 1 / 4"
  "\<exists>c. employee_rate = Fin c \<and> 0 < c \<and> c \<le> 1 / 4"
  "\<exists>c. employer_rate = Fin c \<and> 0 < c \<and> c \<le> 1 / 4"
  unfolding rate_vals by (rule small_pos_fl; simp)+

lemma injury_rate_bounds: "\<exists>c. injuryEmployer = Fin c \<and> 0 < c \<and> c \<le> 1 / 4"
  unfolding injuryEmployer_val by (rule small_pos_fl; simp)

lemma derived_shares_pos:
  "list_all (\<lambda>s. \<exists>c. s = Fin c \<and> 0 < c \<and> c \<le> 1 / 4) derived_shares"
  unfolding derived_shares_val list.pred_inject
  by (intro conjI; (rule small_pos_fl; simp)?) simp

lemma estimate_finite:
  assumes "is_number (Fin g)" and "0 < g"
  shows "\<exists>u. fadd (fmul (Fin g) employee_rate) flatHealthContribution = Fin u \<and> 35 \<le> u"
proof -
  obtain c where c: "employee_rate = Fin c" "0 < c" "c \<le> 1 / 4" using rate_bounds(5) by blast
  have g: "g < 2 ^ 1024" using is_number_bound[OF assms(1)] by simp
  obtain t where t: "fmul (Fin g) (Fin c) = Fin t" "0 \<le> t" "t \<le> 2 ^ 1022"
    using fmul_quarter[of g c] assms(2) g c by auto
  obtain u where "fadd (Fin t) (Fin 35) = Fin u" "35 \<le> u"
    using fadd_flat[OF t(2,3)] by blast
  then show ?thesis using c t by (auto simp: flatHealthContribution_def)
qed

lemma tax_not_NaN:
  assumes "is_number (Fin g)" and "0 < g"
  shows "fsub (fsub (Fin g) (Fin n))
      (fadd (fmul (Fin g) employee_rate) flatHealthContribution) \<noteq> NaN"
proof -
  obtain u where u: "fadd (fmul (Fin g) employee_rate) flatHealthContribution = Fin u"
    using estimate_finite[OF assms] by blast
  show ?thesis
    unfolding u using round64_cases[of "g - n"] by (auto simp: fsub_def)
qed

lemma calc_contributions:
  "calculateDistribution net gross = Inr r \<Longrightarrow>
     contributions r =
       \<lparr>pension = fmul gross pension_rate,
        health = fadd (fmul gross health_rate) flatHealthContribution,
        unemployment = fmul gross unemployment_rate,
        parental = fmul gross parental_rate,
        injury = fmul gross injuryEmployer\<rparr>"
  by (auto simp: calculateDistribution_def Let_def split: if_splits)

lemma calc_breakdown:
  "calculateDistribution net gross = Inr r \<Longrightarrow>
     map amount (breakdown r) =
       [fadd (pension (contributions r)) (alloc_pensions (allocations r)),
        fadd (fadd (health (contributions r)) (alloc_healthcare (allocations r)))
          (injury (contributions r)),
        fadd (unemployment (contributions r)) (alloc_unemployment (allocations r)),
        fadd (parental (contributions r)) (alloc_familySupport (allocations r)),
        alloc_otherSocialProtection (allocations r), alloc_education (allocations r),
        alloc_defence (allocations r), alloc_police (allocations r),
        alloc_economicAffairs (allocations r), alloc_generalPublicServices (allocations r),
        alloc_culture (allocations r), alloc_environment (allocations r),
        alloc_housing (allocations r)]"
  by (auto simp: calculateDistribution_def Let_def split: if_splits)

lemma calc_totalCollected:
  "calculateDistribution net gross = Inr r \<Longrightarrow>
     totalCollected r =
       fadd (fadd (fadd (fadd (fadd (pension (contributions r)) (health (contributions r)))
           (unemployment (contributions r))) (parental (contributions r)))
           (injury (contributions r)))
         (foldl fadd (Fin 0) (Object_values (allocations r)))"
  by (auto simp: calculateDistribution_def Let_def split: if_splits)

lemma tax_nonneg:
  assumes "is_number gross" and "isFinite net" and "isFinite gross" and "flt (Fin 0) gross"
    and "calculateDistribution net gross = Inr r"
  shows "fle (Fin 0) (personalIncomeTax r)"
proof -
  obtain g n where gn: "gross = Fin g" "net = Fin n"
    using assms(2,3) by (cases gross; cases net) auto
  have g: "0 < g" using assms(4) gn by simp
  have "is_number (Fin g)" using assms(1) gn by simp
  from tax_not_NaN[OF this g, of n] show ?thesis
    unfolding calc_personalIncomeTax[OF assms(5)] gn by (rule fmax_nonneg)
qed

lemma contributions_nonneg:
  assumes "0 < g" and "calculateDistribution net (Fin g) = Inr r"
  shows "fle (Fin 0) (pension (contributions r))"
    and "fle (Fin 0) (health (contributions r))"
    and "fle (Fin 0) (unemployment (contributions r))"
    and "fle (Fin 0) (parental (contributions r))"
    and "fle (Fin 0) (injury (contributions r))"
proof -
  have m: "fle (Fin 0) (fmul (Fin g) c)" if "\<exists>q. c = Fin q \<and> 0 < q \<and> q \<le> 1 / 4" for c
    using that assms(1) by (auto intro!: round64_nonneg)
  show "fle (Fin 0) (pension (contributions r))"
    unfolding calc_contributions[OF assms(2)] using m[OF rate_bounds(1)] by simp
  show "fle (Fin 0) (health (contributions r))"
    unfolding calc_contributions[OF assms(2)] flatHealthContribution_def
    using fadd_nonneg[OF m[OF rate_bounds(2)], of "Fin 35"] by simp
  show "fle (Fin 0) (unemployment (contributions r))"
    unfolding calc_contributions[OF assms(2)] using m[OF rate_bounds(3)] by simp
  show "fle (Fin 0) (parental (contributions r))"
    unfolding calc_contributions[OF assms(2)] using m[OF rate_bounds(4)] by simp
  show "fle (Fin 0) (injury (contributions r))"
    unfolding calc_contributions[OF assms(2)] using m[OF injury_rate_bounds] by simp
qed

lemma allocations_nonneg:
  assumes "fle (Fin 0) (personalIncomeTax r)" and "calculateDistribution net gross = Inr r"
  shows "list_all (fle (Fin 0)) (Object_values (allocations r))"
proof -
  have "fle (Fin 0) (fmul (personalIncomeTax r) s)"
    if "\<exists>c. s = Fin c \<and> 0 < c \<and> c \<le> 1 / 4" for s
    using that fmul_nonneg[OF assms(1)] by auto
  then show ?thesis
    unfolding calc_allocations[OF assms(2)] list.pred_map
    using derived_shares_pos by (auto simp: list_all_iff)
qed

lemma is_number_2000: "is_number (Fin 2000)"
proof -
  have "rnd_fl 2000 0 = fl 2000 0" by (simp add: fl_eval)
  then show ?thesis by (simp add: rnd_fl_def fl_def)
qed


section \<open>Accumulated rounding errors\<close>

lemma tiny_pos: "0 < tiny"
  by (simp add: tiny_def)

lemma tiny_small: "tiny \<le> 1 / 10 ^ 20"
proof -
  have "(10::rat) ^ 20 \<le> 2 ^ 70" by simp
  also have "\<dots> \<le> 2 ^ 1070" by (rule power_increasing) simp_all
  finally show ?thesis unfolding tiny_def by (simp add: field_simps del: power_numeral)
qed

lemma tiny_ulp: "1 / 2 ^ 1075 = tiny / 32"
  by (simp add: tiny_def)

lemma near_exact: "0 \<le> X \<Longrightarrow> near 0 0 X X"
  by (simp add: near_def)

lemma near_weaken:
  assumes "near k d x X" and "k \<le> k'" and "d \<le> d'"
  shows "near k' d' x X"
proof -
  have X: "0 \<le> X" using assms(1) by (simp add: near_def)
  have "k * (X / 2 ^ 52) \<le> k' * (X / 2 ^ 52)"
    using assms(2) X by (intro mult_right_mono) simp_all
  moreover have "d * tiny \<le> d' * tiny"
    using assms(3) tiny_pos by (intro mult_right_mono) simp_all
  ultimately show ?thesis using assms(1) by (simp add: near_def)
qed

lemma near_add:
  assumes "near k d1 x X" and "near k d2 y Y" and "0 \<le> k"
  shows "near k (d1 + d2) (x + y) (X + Y)"
proof -
  have "\<bar>x + y - (X + Y)\<bar> \<le> \<bar>x - X\<bar> + \<bar>y - Y\<bar>" by simp
  then show ?thesis
    using assms by (simp add: near_def algebra_simps add_divide_distrib)
qed

lemma near_mult:
  assumes "near k d x X" and "0 \<le> c" and "c \<le> 1" and "0 \<le> d"
  shows "near k d (x * c) (X * c)"
proof -
  have X: "0 \<le> X" using assms(1) by (simp add: near_def)
  have "\<bar>x * c - X * c\<bar> = \<bar>x - X\<bar> * c"
    using assms(2) by (simp add: left_diff_distrib[symmetric] abs_mult)
  also have "\<dots> \<le> (k * (X / 2 ^ 52) + d * tiny) * c"
    using assms(1,2) by (intro mult_right_mono) (simp_all add: near_def)
  also have "\<dots> = k * (X * c / 2 ^ 52) + d * tiny * c" by (simp add: algebra_simps)
  also have "\<dots> \<le> k * (X * c / 2 ^ 52) + d * tiny"
  proof -
    have "d * tiny * c \<le> d * tiny * 1"
      using assms(3,4) tiny_pos by (intro mult_left_mono) simp_all
    then show ?thesis by simp
  qed
  finally show ?thesis using X assms(2) by (simp add: near_def)
qed

lemma near_round:
  assumes "near k d x X" and "0 \<le> k" and "k \<le> 1000" and "0 \<le> d" and "d \<le> 1000"
  shows "near (k + 1) (d + 1) (round_fin x) X"
proof -
  have X: "0 \<le> X" and e: "\<bar>x - X\<bar> \<le> k * (X / 2 ^ 52) + d * tiny"
    using assms(1) by (simp_all add: near_def)
  have kX: "0 \<le> k * (X / 2 ^ 52)" using X assms(2) by simp
  have kX': "k * (X / 2 ^ 52) \<le> 1000 * (X / 2 ^ 52)"
    using X assms(3) by (intro mult_right_mono) simp_all
  have dt: "0 \<le> d * tiny" "d * tiny \<le> 1000 * tiny"
    using assms(4,5) tiny_pos by (simp_all add: mult_right_mono)
  have ax: "\<bar>x\<bar> \<le> X + k * (X / 2 ^ 52) + d * tiny" using e X by linarith
  have r: "\<bar>round_fin x - x\<bar> \<le> \<bar>x\<bar> / 2 ^ 53 + tiny / 32"
    using round_fin_error[of x] by (simp only: tiny_ulp)
  have "\<bar>round_fin x - X\<bar> \<le> \<bar>round_fin x - x\<bar> + \<bar>x - X\<bar>" by simp
  also have "\<dots> \<le> \<bar>x\<bar> / 2 ^ 53 + tiny / 32 + (k * (X / 2 ^ 52) + d * tiny)"
    using r e by linarith
  also have "\<dots> \<le> (k + 1) * (X / 2 ^ 52) + (d + 1) * tiny"
  proof -
    have "\<bar>x\<bar> / 2 ^ 53 \<le> (X + 1000 * (X / 2 ^ 52) + 1000 * tiny) / 2 ^ 53"
    proof (rule divide_right_mono)
      show "\<bar>x\<bar> \<le> X + 1000 * (X / 2 ^ 52) + 1000 * tiny" using ax kX' dt by linarith
    qed simp
    also have "\<dots> \<le> X / 2 ^ 52 + tiny / 2"
      using X tiny_pos by (simp add: field_simps)
    finally have a: "\<bar>x\<bar> / 2 ^ 53 \<le> X / 2 ^ 52 + tiny / 2" .
    have b: "(k + 1) * (X / 2 ^ 52) = k * (X / 2 ^ 52) + X / 2 ^ 52"
      "(d + 1) * tiny = d * tiny + tiny"
      by (simp_all add: algebra_simps)
    show ?thesis unfolding b using a tiny_pos by linarith
  qed
  finally show ?thesis using X by (simp add: near_def)
qed

lemma round64_Fin_D: "round64 v = Fin z \<Longrightarrow> z = round_fin v"
  using round64_cases[of v] by auto

lemma fadd_Fin_D:
  assumes "fadd a b = Fin z"
  shows "\<exists>x y. a = Fin x \<and> b = Fin y \<and> z = round_fin (x + y)"
  using assms by (cases a; cases b) (auto dest: round64_Fin_D split: if_splits)

lemma fmul_Fin_D:
  assumes "fmul a (Fin c) = Fin z" and "c \<noteq> 0"
  shows "\<exists>x. a = Fin x \<and> z = round_fin (x * c)"
  using assms by (cases a) (auto dest: round64_Fin_D split: if_splits)

lemma near_fadd:
  assumes "fadd (Fin x) (Fin y) = Fin z"
    and "near k d1 x X" and "near k d2 y Y"
    and "0 \<le> k" and "k \<le> 1000" and "0 \<le> d1" and "0 \<le> d2" and "d1 + d2 \<le> 1000"
  shows "near (k + 1) (d1 + d2 + 1) z (X + Y)"
proof -
  have z: "z = round_fin (x + y)" using fadd_Fin_D[OF assms(1)] by simp
  show ?thesis unfolding z
    using assms by (intro near_round near_add) simp_all
qed

lemma near_fmul:
  assumes "fmul (Fin x) (Fin c) = Fin z"
    and "near k d x X" and "0 < c" and "c \<le> 1"
    and "0 \<le> k" and "k \<le> 1000" and "0 \<le> d" and "d \<le> 1000"
  shows "near (k + 1) (d + 1) z (X * c)"
proof -
  have z: "z = round_fin (x * c)" using fmul_Fin_D[OF assms(1)] assms(3) by simp
  show ?thesis unfolding z
    using assms by (intro near_round near_mult) simp_all
qed

lemma approx_Fin: "approx k d (Fin x) X = near k d x X"
  by (simp add: approx_def)

lemma approx_exact: "0 \<le> x \<Longrightarrow> approx 0 0 (Fin x) x"
  by (simp add: approx_def near_exact)

lemma approx_weaken:
  assumes "approx k d v X" and "k \<le> k'" and "d \<le> d'"
  shows "approx k' d' v X"
  using assms by (cases v) (auto simp: approx_def intro: near_weaken)

lemma approx_fadd:
  assumes "approx k d1 a X" and "approx k d2 b Y"
    and "0 \<le> k" and "k \<le> 1000" and "0 \<le> d1" and "0 \<le> d2" and "d1 + d2 \<le> 1000"
  shows "approx (k + 1) (d1 + d2 + 1) (fadd a b) (X + Y)"
proof (cases "fadd a b")
  case (Fin z)
  then obtain x y where xy: "a = Fin x" "b = Fin y"
    using fadd_Fin_D[of a b z] by blast
  have "near (k + 1) (d1 + d2 + 1) z (X + Y)"
    using Fin assms unfolding xy approx_Fin by (rule near_fadd)
  then show ?thesis by (simp add: Fin approx_Fin)
qed (simp_all add: approx_def)

lemma approx_fmul:
  assumes "approx k d a X" and "0 < c" and "c \<le> 1"
    and "0 \<le> k" and "k \<le> 1000" and "0 \<le> d" and "d \<le> 1000"
  shows "approx (k + 1) (d + 1) (fmul a (Fin c)) (X * c)"
proof (cases "fmul a (Fin c)")
  case (Fin z)
  then obtain x where x: "a = Fin x"
    using fmul_Fin_D[of a c z] assms(2) by auto
  have "near (k + 1) (d + 1) z (X * c)"
    using Fin assms unfolding x approx_Fin by (rule near_fmul)
  then show ?thesis by (simp add: Fin approx_Fin)
qed (simp_all add: approx_def)

lemma approx_foldl:
  assumes "approx (of_nat m) (of_nat e) a X"
    and "list_all2 (approx (of_nat m) (of_nat de)) xs Xs"
    and "m + length xs \<le> 1000" and "e + (de + 1) * length xs \<le> 1000"
  shows "approx (of_nat (m + length xs)) (of_nat (e + (de + 1) * length xs))
     (foldl fadd a xs) (X + sum_list Xs)"
  using assms
proof (induction xs arbitrary: a X m e Xs)
  case Nil
  then show ?case by simp
next
  case (Cons x xs)
  then obtain Y Ys where Xs: "Xs = Y # Ys" and x: "approx (of_nat m) (of_nat de) x Y"
    and rest: "list_all2 (approx (of_nat m) (of_nat de)) xs Ys"
    by (auto simp: list_all2_Cons1)
  have b: "m \<le> 1000" "e + de \<le> 1000" using Cons.prems(3,4) by simp_all
  have "approx (of_nat m + 1) (of_nat e + of_nat de + 1) (fadd a x) (X + Y)"
    using Cons.prems(1) x b by (intro approx_fadd) (simp_all add: of_nat_add[symmetric] del: of_nat_add)
  moreover have "(of_nat (m + 1) :: rat) = of_nat m + 1"
    "(of_nat (e + de + 1) :: rat) = of_nat e + of_nat de + 1" by simp_all
  ultimately have 1: "approx (of_nat (m + 1)) (of_nat (e + de + 1)) (fadd a x) (X + Y)"
    by (simp only:)
  have 2: "list_all2 (approx (of_nat (m + 1)) (of_nat de)) xs Ys"
    using rest by (rule list_all2_mono) (auto intro: approx_weaken)
  have "approx (of_nat (m + 1 + length xs)) (of_nat (e + de + 1 + (de + 1) * length xs))
     (foldl fadd (fadd a x) xs) (X + Y + sum_list Ys)"
    using Cons.prems(3,4) by (intro Cons.IH[OF 1 2]) simp_all
  then show ?case by (simp add: Xs algebra_simps)
qed

lemma exact_sum_Some_D:
  "exact_sum vs = Some s \<Longrightarrow> \<exists>qs. vs = map Fin qs \<and> sum_list qs = s"
proof (induction vs arbitrary: s)
  case Nil
  then show ?case by simp
next
  case (Cons v vs)
  then obtain q s' where v: "v = Fin q" and s': "exact_sum vs = Some s'" and s: "s = q + s'"
    by (cases v) auto
  obtain qs where "vs = map Fin qs" "sum_list qs = s'" using Cons.IH[OF s'] by blast
  then have "v # vs = map Fin (q # qs) \<and> sum_list (q # qs) = s" using v s by simp
  then show ?case by (rule exI[of _ "q # qs"])
qed

lemma near_sum_list:
  assumes "list_all2 (near k d) qs Xs" and "0 \<le> k"
  shows "near k (d * of_nat (length qs)) (sum_list qs) (sum_list Xs)"
  using assms
proof (induction qs Xs rule: list_all2_induct)
  case Nil
  then show ?case by (simp add: near_def)
next
  case (Cons q qs X Xs)
  have "near k (d + d * of_nat (length qs)) (q + sum_list qs) (X + sum_list Xs)"
    using Cons by (intro near_add) simp_all
  then show ?case by (simp add: algebra_simps)
qed

lemma foldl_fadd_finite:
  "foldl fadd a xs = Fin z \<Longrightarrow> isFinite a \<and> list_all isFinite xs"
proof (induction xs arbitrary: a)
  case Nil
  then show ?case by simp
next
  case (Cons x xs)
  then have "isFinite (fadd a x)" "list_all isFinite xs" by auto
  moreover from this(1) have "isFinite a \<and> isFinite x"
    by (cases a; cases x) auto
  ultimately show ?case by simp
qed

section \<open>The total and the quantities it approximates\<close>

lemma val_of_bounds:
  assumes "\<exists>c. v = Fin c \<and> 0 < c \<and> c \<le> 1 / 4"
  shows "v = Fin (val v)" and "0 < val v" and "val v \<le> 1"
  using assms by auto

lemmas val_rates =
  val_of_bounds[OF rate_bounds(1)] val_of_bounds[OF rate_bounds(2)]
  val_of_bounds[OF rate_bounds(3)] val_of_bounds[OF rate_bounds(4)]
  val_of_bounds[OF injury_rate_bounds]

lemma val_shares:
  "list_all (\<lambda>s. s = Fin (val s) \<and> 0 < val s \<and> val s \<le> 1) derived_shares"
  using derived_shares_pos by (rule list.pred_mono_strong) auto

lemma fmax_Fin_nonneg: "fmax (Fin 0) d = Fin p \<Longrightarrow> 0 \<le> p"
  by (cases d) (auto split: if_splits)

lemma total_finite_tax:
  assumes r: "calculateDistribution net gross = Inr r" and t: "totalCollected r = Fin t"
  shows "\<exists>p. personalIncomeTax r = Fin p \<and> 0 \<le> p"
proof -
  obtain ta where "foldl fadd (Fin 0) (Object_values (allocations r)) = Fin ta"
    using t fadd_Fin_D unfolding calc_totalCollected[OF r] by blast
  then have "list_all isFinite (map (fmul (personalIncomeTax r)) derived_shares)"
    using foldl_fadd_finite unfolding calc_allocations[OF r] by blast
  then have f: "isFinite (fmul (personalIncomeTax r) sharePensions)"
    by (simp add: derived_shares_def)
  obtain q where q: "sharePensions = Fin q" "0 < q"
    using derived_shares_pos by (auto simp: derived_shares_def)
  have "isFinite (fmul (personalIncomeTax r) (Fin q))" using f unfolding q(1) .
  then obtain p where p: "personalIncomeTax r = Fin p"
    using q(2) by (cases "personalIncomeTax r") auto
  then have "0 \<le> p" using calc_personalIncomeTax[OF r] fmax_Fin_nonneg by metis
  then show ?thesis using p by blast
qed

lemma contribution_approx:
  assumes "0 < g" and "c = Fin (val c)" and "0 < val c" and "val c \<le> 1"
  shows "approx 1 1 (fmul (Fin g) c) (g * val c)"
proof -
  have "approx (0 + 1) (0 + 1) (fmul (Fin g) (Fin (val c))) (g * val c)"
    using assms by (intro approx_fmul approx_exact) simp_all
  then show ?thesis using assms(2) by simp
qed

lemma contributions_approx:
  assumes r: "calculateDistribution net (Fin g) = Inr r" and g: "0 < g"
  shows "approx 1 1 (pension (contributions r)) (g * val pension_rate)"
    and "approx 2 2 (health (contributions r)) (g * val health_rate + 35)"
    and "approx 1 1 (unemployment (contributions r)) (g * val unemployment_rate)"
    and "approx 1 1 (parental (contributions r)) (g * val parental_rate)"
    and "approx 1 1 (injury (contributions r)) (g * val injuryEmployer)"
proof -
  show "approx 1 1 (pension (contributions r)) (g * val pension_rate)"
    unfolding calc_contributions[OF r] using contribution_approx[OF g val_rates(1-3)] by simp
  show "approx 1 1 (unemployment (contributions r)) (g * val unemployment_rate)"
    unfolding calc_contributions[OF r] using contribution_approx[OF g val_rates(7-9)] by simp
  show "approx 1 1 (parental (contributions r)) (g * val parental_rate)"
    unfolding calc_contributions[OF r] using contribution_approx[OF g val_rates(10-12)] by simp
  show "approx 1 1 (injury (contributions r)) (g * val injuryEmployer)"
    unfolding calc_contributions[OF r] using contribution_approx[OF g val_rates(13-15)] by simp
  have "approx (1 + 1) (1 + 0 + 1) (fadd (fmul (Fin g) health_rate) (Fin 35))
      (g * val health_rate + 35)"
    using contribution_approx[OF g val_rates(4-6)]
    by (intro approx_fadd approx_weaken[OF approx_exact, of 35 1 0]) simp_all
  then show "approx 2 2 (health (contributions r)) (g * val health_rate + 35)"
    unfolding calc_contributions[OF r] flatHealthContribution_def by simp
qed

lemma total_contributions_approx:
  assumes r: "calculateDistribution net (Fin g) = Inr r" and g: "0 < g"
  shows "approx 6 10
     (fadd (fadd (fadd (fadd (pension (contributions r)) (health (contributions r)))
        (unemployment (contributions r))) (parental (contributions r)))
        (injury (contributions r)))
     (g * val pension_rate + (g * val health_rate + 35) + g * val unemployment_rate
        + g * val parental_rate + g * val injuryEmployer)"
proof -
  note c = contributions_approx[OF r g]
  have 1: "approx (2 + 1) (1 + 2 + 1)
      (fadd (pension (contributions r)) (health (contributions r)))
      (g * val pension_rate + (g * val health_rate + 35))"
    using c(2) by (intro approx_fadd approx_weaken[OF c(1), of 2 1]) simp_all
  have 2: "approx (3 + 1) (4 + 1 + 1)
      (fadd (fadd (pension (contributions r)) (health (contributions r)))
        (unemployment (contributions r)))
      (g * val pension_rate + (g * val health_rate + 35) + g * val unemployment_rate)"
    using 1 by (intro approx_fadd approx_weaken[OF c(3), of 3 1]) simp_all
  have 3: "approx (4 + 1) (6 + 1 + 1)
      (fadd (fadd (fadd (pension (contributions r)) (health (contributions r)))
        (unemployment (contributions r))) (parental (contributions r)))
      (g * val pension_rate + (g * val health_rate + 35) + g * val unemployment_rate
        + g * val parental_rate)"
    using 2 by (intro approx_fadd approx_weaken[OF c(4), of 4 1]) simp_all
  have "approx (5 + 1) (8 + 1 + 1)
      (fadd (fadd (fadd (fadd (pension (contributions r)) (health (contributions r)))
        (unemployment (contributions r))) (parental (contributions r)))
        (injury (contributions r)))
      (g * val pension_rate + (g * val health_rate + 35) + g * val unemployment_rate
        + g * val parental_rate + g * val injuryEmployer)"
    using 3 by (intro approx_fadd approx_weaken[OF c(5), of 5 1]) simp_all
  then show ?thesis by simp
qed

lemma allocations_approx:
  assumes r: "calculateDistribution net gross = Inr r"
    and p: "personalIncomeTax r = Fin p" "0 \<le> p"
  shows "list_all2 (approx 1 1) (Object_values (allocations r))
     (map (\<lambda>s. p * val s) derived_shares)"
proof -
  have "approx 1 1 (fmul (Fin p) s) (p * val s)"
    if "s = Fin (val s) \<and> 0 < val s \<and> val s \<le> 1" for s
  proof -
    have "approx (0 + 1) (0 + 1) (fmul (Fin p) (Fin (val s))) (p * val s)"
      using that p(2) by (intro approx_fmul approx_exact) simp_all
    then show ?thesis using that by simp
  qed
  then show ?thesis
    unfolding calc_allocations[OF r] p(1)
    using val_shares by (auto simp: list_all2_map1 list_all2_map2 list_all2_same list_all_iff)
qed

lemma total_allocations_approx:
  assumes r: "calculateDistribution net gross = Inr r"
    and p: "personalIncomeTax r = Fin p" "0 \<le> p"
  shows "approx 14 26 (foldl fadd (Fin 0) (Object_values (allocations r)))
     (p * sum_list (map val derived_shares))"
proof -
  have l: "length (Object_values (allocations r)) = 13"
    by (simp add: Object_values_def)
  have "approx (of_nat (1 + length (Object_values (allocations r))))
      (of_nat (0 + (1 + 1) * length (Object_values (allocations r))))
      (foldl fadd (Fin 0) (Object_values (allocations r)))
      (0 + sum_list (map (\<lambda>s. p * val s) derived_shares))"
  proof (rule approx_foldl)
    show "approx (of_nat 1) (of_nat 0) (Fin 0) 0"
      using approx_weaken[OF approx_exact, of 0 1 0] by simp
    show "list_all2 (approx (of_nat 1) (of_nat 1)) (Object_values (allocations r))
       (map (\<lambda>s. p * val s) derived_shares)"
      using allocations_approx[OF r p] by simp
  qed (simp_all add: l)
  moreover have "sum_list (map (\<lambda>s. p * val s) derived_shares)
      = p * sum_list (map val derived_shares)"
    by (simp add: sum_list_const_mult)
  ultimately show ?thesis by (simp add: l)
qed

lemma total_approx:
  assumes r: "calculateDistribution net (Fin g) = Inr r" and g: "0 < g"
    and p: "personalIncomeTax r = Fin p" "0 \<le> p"
  shows "approx 15 37 (totalCollected r)
     (g * val pension_rate + (g * val health_rate + 35) + g * val unemployment_rate
        + g * val parental_rate + g * val injuryEmployer
      + p * sum_list (map val derived_shares))"
proof -
  have "approx (14 + 1) (10 + 26 + 1) (totalCollected r)
     (g * val pension_rate + (g * val health_rate + 35) + g * val unemployment_rate
        + g * val parental_rate + g * val injuryEmployer
      + p * sum_list (map val derived_shares))"
    unfolding calc_totalCollected[OF r]
    using total_allocations_approx[OF r p]
    by (intro approx_fadd approx_weaken[OF total_contributions_approx[OF r g], of 14 10])
      simp_all
  then show ?thesis by simp
qed

lemma rel_close:
  assumes "\<bar>t - T\<bar> \<le> k * (T / 2 ^ 52) + d * tiny" and "35 \<le> T"
    and "\<bar>T - T2\<bar> \<le> T2 / 10 ^ 15" and "0 \<le> k" and "k \<le> 100" and "0 \<le> d" and "d \<le> 1000"
  shows "\<bar>t - T2\<bar> \<le> T2 / 10 ^ 12"
proof -
  have ts: "d * tiny \<le> 1000 * (1 / 10 ^ 20)"
    using tiny_small tiny_pos assms(6,7) by (intro mult_mono) simp_all
  have kT: "k * (T / 2 ^ 52) \<le> 100 * (T / 2 ^ 52)"
    using assms(2,5) by (intro mult_right_mono) simp_all
  have a0: "T - T2 \<le> T2 / 10 ^ 15" "- (T - T2) \<le> T2 / 10 ^ 15"
    using assms(3) unfolding abs_le_iff by blast+
  have a: "T \<le> T2 + T2 / 10 ^ 15" "T2 \<le> T + T2 / 10 ^ 15"
    using a0 by simp_all
  have "\<bar>t - T2\<bar> \<le> \<bar>t - T\<bar> + \<bar>T - T2\<bar>" by simp
  also have "\<dots> \<le> 100 * (T / 2 ^ 52) + 1000 * (1 / 10 ^ 20) + T2 / 10 ^ 15"
    using assms(1,3) ts kT by linarith
  also have "\<dots> \<le> T2 / 10 ^ 12"
    using a assms(2) by simp
  finally show ?thesis .
qed

lemma rate_sum_close:
  fixes g p S :: rat
  assumes "0 < g" and "0 \<le> p" and "0 \<le> S"
  shows "\<bar>(g * (463474444851952509 / 2 ^ 60) + 35 + p * S)
       - (g * (3707795558815619911 / 2 ^ 63) + 35 + p * S)\<bar>
     \<le> (g * (3707795558815619911 / 2 ^ 63) + 35 + p * S) / 10 ^ 15" (is "\<bar>?T - ?T2\<bar> \<le> _")
  and "35 \<le> g * (463474444851952509 / 2 ^ 60) + 35 + p * S"
proof -
  have pS: "0 \<le> p * S" using assms(2,3) by simp
  have "?T - ?T2 = g * (463474444851952509 / 2 ^ 60 - 3707795558815619911 / 2 ^ 63)"
    by (simp add: algebra_simps)
  also have "\<dots> = g * (161 / 2 ^ 63)" by simp
  finally have d: "?T - ?T2 = g * (161 / 2 ^ 63)" .
  have "g * (161 / 2 ^ 63) \<le> g * ((3707795558815619911 / 2 ^ 63) / 10 ^ 15)"
    using assms(1) by (intro mult_left_mono) simp_all
  moreover have "0 \<le> g * (161 / 2 ^ 63)" using assms(1) by simp
  ultimately show "\<bar>?T - ?T2\<bar> \<le> ?T2 / 10 ^ 15"
    unfolding d using pS by (simp add: abs_le_iff)
  show "35 \<le> ?T" using assms(1) pS by simp
qed

lemma exact_sum_val: "exact_sum vs = Some s \<Longrightarrow> sum_list (map val vs) = s"
  using exact_sum_Some_D[of vs s] by (auto simp: comp_def)

lemma all_rates_sum: "exact_sum all_rates = Some (3707795558815619911 / 2 ^ 63)"
  unfolding all_rates_def const_vals by (simp add: exact_sum_fl)

lemma derived_shares_sum: "exact_sum derived_shares = Some (1150442103521670919 / 2 ^ 60)"
  unfolding derived_shares_val by (simp add: exact_sum_fl)

lemma val_fl: "val (fl m e) = of_int m * 2 powi e"
  by (simp add: fl_def)

lemma rate_sums_sum:
  "val pension_rate + val health_rate + val unemployment_rate + val parental_rate
     + val injuryEmployer = 463474444851952509 / 2 ^ 60"
  unfolding rate_vals injuryEmployer_val by (simp add: val_fl)

lemma total_near:
  assumes r: "calculateDistribution net (Fin g) = Inr r" and t: "totalCollected r = Fin t"
    and p: "personalIncomeTax r = Fin p"
  shows "0 < g" and "0 \<le> p"
    and "near 15 37 t (g * (463474444851952509 / 2 ^ 60) + 35
           + p * (1150442103521670919 / 2 ^ 60))"
proof -
  show g: "0 < g" using calc_accepted[OF r] by (simp add: fle_def)
  show p0: "0 \<le> p" using total_finite_tax[OF r t] p by simp
  have T: "g * val pension_rate + (g * val health_rate + 35) + g * val unemployment_rate
        + g * val parental_rate + g * val injuryEmployer
        + p * sum_list (map val derived_shares)
      = g * (463474444851952509 / 2 ^ 60) + 35 + p * (1150442103521670919 / 2 ^ 60)"
    unfolding rate_sums_sum[symmetric] exact_sum_val[OF derived_shares_sum]
    by (simp add: algebra_simps)
  show "near 15 37 t (g * (463474444851952509 / 2 ^ 60) + 35
           + p * (1150442103521670919 / 2 ^ 60))"
    using total_approx[OF r g p p0] unfolding t approx_Fin T .
qed


section \<open>The breakdown and the total\<close>

lemma is_number_fl: "is_number (fl m e) = (rnd_fl m e = fl m e)"
  by (simp add: fl_def rnd_fl_def)

lemma alloc_fields_approx:
  assumes r: "calculateDistribution net gross = Inr r"
    and p: "personalIncomeTax r = Fin p" "0 \<le> p"
  shows "approx 1 1 (alloc_pensions (allocations r)) (p * val sharePensions)"
    and "approx 1 1 (alloc_healthcare (allocations r)) (p * val shareHealthcare)"
    and "approx 1 1 (alloc_unemployment (allocations r)) (p * val shareUnemployment)"
    and "approx 1 1 (alloc_familySupport (allocations r)) (p * val shareFamily)"
    and "approx 1 1 (alloc_otherSocialProtection (allocations r)) (p * val shareOtherSocial)"
    and "approx 1 1 (alloc_education (allocations r)) (p * val general_education)"
    and "approx 1 1 (alloc_defence (allocations r)) (p * val general_defence)"
    and "approx 1 1 (alloc_police (allocations r)) (p * val general_publicOrderAndSafety)"
    and "approx 1 1 (alloc_economicAffairs (allocations r)) (p * val general_economicAffairs)"
    and "approx 1 1 (alloc_generalPublicServices (allocations r))
          (p * val general_generalPublicServices)"
    and "approx 1 1 (alloc_culture (allocations r)) (p * val general_recreationCultureReligion)"
    and "approx 1 1 (alloc_environment (allocations r))
          (p * val general_environmentalProtection)"
    and "approx 1 1 (alloc_housing (allocations r)) (p * val general_housingAndCommunity)"
  using allocations_approx[OF r p] by (simp_all add: Object_values_def derived_shares_def)

lemma breakdown_approx:
  assumes r: "calculateDistribution net (Fin g) = Inr r" and g: "0 < g"
    and p: "personalIncomeTax r = Fin p" "0 \<le> p"
  shows "list_all2 (approx 4 6) (map amount (breakdown r))
     [g * val pension_rate + p * val sharePensions,
      g * val health_rate + 35 + p * val shareHealthcare + g * val injuryEmployer,
      g * val unemployment_rate + p * val shareUnemployment,
      g * val parental_rate + p * val shareFamily,
      p * val shareOtherSocial, p * val general_education, p * val general_defence,
      p * val general_publicOrderAndSafety, p * val general_economicAffairs,
      p * val general_generalPublicServices, p * val general_recreationCultureReligion,
      p * val general_environmentalProtection, p * val general_housingAndCommunity]"
proof -
  note c = contributions_approx[OF r g]
  note a = alloc_fields_approx[OF r p]
  have "approx (1 + 1) (1 + 1 + 1)
      (fadd (pension (contributions r)) (alloc_pensions (allocations r)))
      (g * val pension_rate + p * val sharePensions)"
    by (intro approx_fadd c a) simp_all
  then have 1: "approx 4 6
      (fadd (pension (contributions r)) (alloc_pensions (allocations r)))
      (g * val pension_rate + p * val sharePensions)"
    by (rule approx_weaken) simp_all
  have h: "approx (2 + 1) (2 + 1 + 1)
      (fadd (health (contributions r)) (alloc_healthcare (allocations r)))
      (g * val health_rate + 35 + p * val shareHealthcare)"
    using c(2) by (intro approx_fadd approx_weaken[OF a(2), of 2 1]) simp_all
  have "approx (3 + 1) (4 + 1 + 1)
      (fadd (fadd (health (contributions r)) (alloc_healthcare (allocations r)))
         (injury (contributions r)))
      (g * val health_rate + 35 + p * val shareHealthcare + g * val injuryEmployer)"
    using h by (intro approx_fadd approx_weaken[OF c(5), of 3 1]) simp_all
  then have 2: "approx 4 6
      (fadd (fadd (health (contributions r)) (alloc_healthcare (allocations r)))
         (injury (contributions r)))
      (g * val health_rate + 35 + p * val shareHealthcare + g * val injuryEmployer)"
    by simp
  have "approx (1 + 1) (1 + 1 + 1)
      (fadd (unemployment (contributions r)) (alloc_unemployment (allocations r)))
      (g * val unemployment_rate + p * val shareUnemployment)"
    by (intro approx_fadd c a) simp_all
  then have 3: "approx 4 6
      (fadd (unemployment (contributions r)) (alloc_unemployment (allocations r)))
      (g * val unemployment_rate + p * val shareUnemployment)"
    by (rule approx_weaken) simp_all
  have "approx (1 + 1) (1 + 1 + 1)
      (fadd (parental (contributions r)) (alloc_familySupport (allocations r)))
      (g * val parental_rate + p * val shareFamily)"
    by (intro approx_fadd c a) simp_all
  then have 4: "approx 4 6
      (fadd (parental (contributions r)) (alloc_familySupport (allocations r)))
      (g * val parental_rate + p * val shareFamily)"
    by (rule approx_weaken) simp_all
  note w = a[THEN approx_weaken, of 4 6]
  show ?thesis
    unfolding calc_breakdown[OF r] using 1 2 3 4 w by simp
qed

lemma breakdown_total:
  "g * val pension_rate + p * val sharePensions
   + (g * val health_rate + 35 + p * val shareHealthcare + g * val injuryEmployer
   + (g * val unemployment_rate + p * val shareUnemployment
   + (g * val parental_rate + p * val shareFamily
   + (p * val shareOtherSocial + (p * val general_education + (p * val general_defence
   + (p * val general_publicOrderAndSafety + (p * val general_economicAffairs
   + (p * val general_generalPublicServices + (p * val general_recreationCultureReligion
   + (p * val general_environmentalProtection
   + (p * val general_housingAndCommunity + 0))))))))))))
   = g * (463474444851952509 / 2 ^ 60) + 35 + p * (1150442103521670919 / 2 ^ 60)"
proof -
  have s: "sum_list (map val derived_shares) = 1150442103521670919 / 2 ^ 60"
    by (rule exact_sum_val[OF derived_shares_sum])
  show ?thesis
    unfolding rate_sums_sum[symmetric] s[symmetric]
    by (simp add: derived_shares_def algebra_simps)
qed

lemma rel_close_pair:
  assumes "near k1 d1 s T" and "near k2 d2 t T" and "35 \<le> T"
    and "0 \<le> k1" and "k1 \<le> 50" and "0 \<le> k2" and "k2 \<le> 50"
    and "0 \<le> d1" and "d1 \<le> 500" and "0 \<le> d2" and "d2 \<le> 500"
  shows "\<bar>s - t\<bar> \<le> t / 10 ^ 12"
proof -
  have e: "\<bar>s - T\<bar> \<le> k1 * (T / 2 ^ 52) + d1 * tiny" "\<bar>t - T\<bar> \<le> k2 * (T / 2 ^ 52) + d2 * tiny"
    using assms(1,2) unfolding near_def by blast+
  have k: "k1 * (T / 2 ^ 52) \<le> 50 * (T / 2 ^ 52)" "k2 * (T / 2 ^ 52) \<le> 50 * (T / 2 ^ 52)"
    using assms(3,5,7) by (simp_all add: mult_right_mono)
  have d: "d1 * tiny \<le> 500 * (1 / 10 ^ 20)" "d2 * tiny \<le> 500 * (1 / 10 ^ 20)"
    using tiny_small tiny_pos assms(8-11) by (intro mult_mono; simp)+
  have "\<bar>s - t\<bar> \<le> \<bar>s - T\<bar> + \<bar>t - T\<bar>" by simp
  then have 1: "\<bar>s - t\<bar> \<le> 100 * (T / 2 ^ 52) + 1000 * (1 / 10 ^ 20)"
    using e k d by linarith
  have "T - t \<le> \<bar>t - T\<bar>" by simp
  then have 2: "T \<le> t + 50 * (T / 2 ^ 52) + 500 * (1 / 10 ^ 20)"
    using e(2) k(2) d(2) by linarith
  have "100 * (T / 2 ^ 52) + 1000 * (1 / 10 ^ 20) \<le> t / 10 ^ 12"
    using 2 assms(3) by simp
  then show ?thesis using 1 by linarith
qed

lemma calc_breakdown_names:
  "calculateDistribution net gross = Inr r \<Longrightarrow>
     map name (breakdown r) =
       [''Pensions (old age)'', ''Healthcare & medical system'', ''Unemployment insurance'',
        ''Parental & family support'', ''Other social protection'', ''Education (schools)'',
        ''Defence (army)'', ''Police (public order & safety)'',
        ''Economic affairs & subsidies'', ''General public services'',
        ''Culture & recreation'', ''Environmental protection'',
        ''Housing & community amenities'']"
  by (auto simp: calculateDistribution_def Let_def split: if_splits)

lemma breakdown_sums_near:
  assumes r: "calculateDistribution net (Fin g) = Inr r" and g: "0 < g"
    and p: "personalIncomeTax r = Fin p" "0 \<le> p"
  shows "exact_sum (map amount (breakdown r)) = Some s \<Longrightarrow>
      near 4 78 s (g * (463474444851952509 / 2 ^ 60) + 35
         + p * (1150442103521670919 / 2 ^ 60))"
    and "foldl fadd (Fin 0) (map amount (breakdown r)) = Fin s' \<Longrightarrow>
      near 17 91 s' (g * (463474444851952509 / 2 ^ 60) + 35
         + p * (1150442103521670919 / 2 ^ 60))"
proof -
  let ?Xs = "[g * val pension_rate + p * val sharePensions,
      g * val health_rate + 35 + p * val shareHealthcare + g * val injuryEmployer,
      g * val unemployment_rate + p * val shareUnemployment,
      g * val parental_rate + p * val shareFamily,
      p * val shareOtherSocial, p * val general_education, p * val general_defence,
      p * val general_publicOrderAndSafety, p * val general_economicAffairs,
      p * val general_generalPublicServices, p * val general_recreationCultureReligion,
      p * val general_environmentalProtection, p * val general_housingAndCommunity]"
  have b: "list_all2 (approx 4 6) (map amount (breakdown r)) ?Xs"
    by (rule breakdown_approx[OF r g p])
  have T: "sum_list ?Xs = g * (463474444851952509 / 2 ^ 60) + 35
         + p * (1150442103521670919 / 2 ^ 60)"
    unfolding sum_list.Cons sum_list.Nil by (rule breakdown_total)
  have l: "length (map amount (breakdown r)) = 13"
    using list_all2_lengthD[OF b] by simp
  {
    assume "exact_sum (map amount (breakdown r)) = Some s"
    then obtain bs where bs: "map amount (breakdown r) = map Fin bs" "sum_list bs = s"
      using exact_sum_Some_D by blast
    have "list_all2 (near 4 6) bs ?Xs"
      using b unfolding bs(1) list_all2_map1 approx_Fin .
    then have "near 4 (6 * of_nat (length bs)) (sum_list bs) (sum_list ?Xs)"
      by (rule near_sum_list) simp
    moreover have "length bs = 13" using l unfolding bs(1) by simp
    ultimately show "near 4 78 s (g * (463474444851952509 / 2 ^ 60) + 35
         + p * (1150442103521670919 / 2 ^ 60))"
      unfolding T bs(2) by simp
  }
  {
    assume f: "foldl fadd (Fin 0) (map amount (breakdown r)) = Fin s'"
    have "approx (of_nat (4 + length (map amount (breakdown r))))
        (of_nat (0 + (6 + 1) * length (map amount (breakdown r))))
        (foldl fadd (Fin 0) (map amount (breakdown r))) (0 + sum_list ?Xs)"
    proof (rule approx_foldl)
      show "approx (of_nat 4) (of_nat 0) (Fin 0) 0"
        using approx_weaken[OF approx_exact, of 0 4 0] by simp
      show "list_all2 (approx (of_nat 4) (of_nat 6)) (map amount (breakdown r)) ?Xs"
        using b by simp
    qed (simp_all only: l, simp_all)
    then show "near 17 91 s' (g * (463474444851952509 / 2 ^ 60) + 35
         + p * (1150442103521670919 / 2 ^ 60))"
      unfolding f approx_Fin l T by simp
  }
qed


section \<open>The claims\<close>

text \<open>
  C4: the error object \<open>{error: 'Invalid salary values'}\<close> is returned exactly when the net
  or the gross salary is not a finite number or the gross salary is at most zero; for every
  finite net salary, negative or above the gross salary, and every finite positive gross
  salary a report is returned.
\<close>

theorem C4_error_iff_invalid:
  "(calculateDistribution net gross = Inl ''Invalid salary values'')
      = (\<not> (\<exists>n g. net = Fin n \<and> gross = Fin g \<and> 0 < g))
   \<and> ((\<exists>r. calculateDistribution net gross = Inr r)
      = (\<exists>n g. net = Fin n \<and> gross = Fin g \<and> 0 < g))"
  by (cases net; cases gross) (auto simp: calculateDistribution_def Let_def fle_def)

theorem C4_error_iff_invalid_witness:
  "calculateDistribution (Fin 1000) (Fin 0) = Inl ''Invalid salary values''
   \<and> calculateDistribution (Fin 1000) NaN = Inl ''Invalid salary values''
   \<and> calculateDistribution NaN (Fin 1000) = Inl ''Invalid salary values''
   \<and> calculateDistribution (Fin 1000) PInf = Inl ''Invalid salary values''
   \<and> (\<exists>r. calculateDistribution (Fin (- 5)) (Fin 1000) = Inr r)
   \<and> (\<exists>r. calculateDistribution (Fin 3000) (Fin 1000) = Inr r)"
  using C4_error_iff_invalid[of "Fin 1000" "Fin 0"] C4_error_iff_invalid[of "Fin 1000" NaN]
    C4_error_iff_invalid[of NaN "Fin 1000"] C4_error_iff_invalid[of "Fin 1000" PInf]
    C4_error_iff_invalid[of "Fin (- 5)" "Fin 1000"] C4_error_iff_invalid[of "Fin 3000" "Fin 1000"]
  by simp

text \<open>
  C5: for every finite positive gross salary and every finite net salary a report is
  returned, and its field \<open>withheld\<close> is the floating-point difference \<open>gross - net\<close>, that
  is the exact difference rounded once to binary64, with no further adjustment; it is the
  exact difference itself whenever that is a binary64 value.
\<close>

theorem C5_withheld_is_difference:
  assumes "0 < g"
  shows "\<exists>r. calculateDistribution (Fin n) (Fin g) = Inr r
     \<and> withheld r = fsub (Fin g) (Fin n) \<and> withheld r = round64 (g - n)
     \<and> (is_number (Fin (g - n)) \<longrightarrow> withheld r = Fin (g - n))"
proof -
  obtain r where r: "calculateDistribution (Fin n) (Fin g) = Inr r"
    using calc_defined[of "Fin n" "Fin g"] assms by (auto simp: fle_def)
  have "withheld r = fsub (Fin g) (Fin n)" by (rule calc_withheld[OF r])
  then show ?thesis using r by (auto simp: fsub_def)
qed

theorem C5_withheld_is_difference_witness:
  "(0::rat) < 2000 \<and> is_number (Fin (2000 - 1400))
   \<and> (\<exists>r. calculateDistribution (Fin 1400) (Fin 2000) = Inr r
     \<and> withheld r = fsub (Fin 2000) (Fin 1400) \<and> withheld r = Fin 600)"
proof -
  have h: "(0::rat) < 2000" by simp
  have "rnd_fl 600 0 = fl 600 0" by (simp add: fl_eval)
  then have i: "is_number (Fin (2000 - 1400))" by (simp add: rnd_fl_def fl_def)
  show ?thesis using h i C5_withheld_is_difference[OF h, of 1400] by auto
qed

text \<open>
  C9: the total reported in the field \<open>employeeContributions\<close> and the estimate subtracted
  from the withheld amount are the same expression, so the report satisfies
  \<open>personalIncomeTax = max(0, withheld - employeeContributions)\<close> on its own fields.
\<close>

theorem C9_tax_from_report_fields:
  assumes "calculateDistribution net gross = Inr r"
  shows "personalIncomeTax r = fmax (Fin 0) (fsub (withheld r) (employeeContributions r))"
  unfolding calc_personalIncomeTax[OF assms] calc_withheld[OF assms]
    calc_employeeContributions[OF assms] ..

theorem C9_tax_from_report_fields_witness:
  "\<exists>r. calculateDistribution (Fin 1400) (Fin 2000) = Inr r
     \<and> personalIncomeTax r = fmax (Fin 0) (fsub (withheld r) (employeeContributions r))"
  using C9_tax_from_report_fields[OF run_2000] run_2000 by blast

text \<open>
  C2, as stated, fails: the thirteen shares by which the tax is allocated sum to less than
  0.998, in exact arithmetic and in floating-point arithmetic alike.
\<close>

theorem C2_shares_sum_counterexample:
  "exact_sum derived_shares = Some (1150442103521670919 / 2 ^ 60)
   \<and> (1150442103521670919 / 2 ^ 60 :: rat) < 998 / 1000
   \<and> foldl fadd (Fin 0) derived_shares = Fin (4493914466881527 / 2 ^ 52)
   \<and> (4493914466881527 / 2 ^ 52 :: rat) < 998 / 1000"
proof -
  have 1: "exact_sum derived_shares = Some (1150442103521670919 / 2 ^ 60)"
    unfolding derived_shares_val by (simp add: exact_sum_fl)
  have 2: "foldl fadd (Fin 0) derived_shares = Fin (4493914466881527 / 2 ^ 52)"
    unfolding derived_shares_val by (simp add: fl_eval) (simp add: fl_def)
  show ?thesis using 1 2 by simp
qed

text \<open>
  C2, amended: the thirteen shares sum to \<open>46.4 / 46.5 = 464 / 465\<close> (about 0.99785) within
  \<open>10\<^sup>-\<^sup>1\<^sup>5\<close>, in exact arithmetic and when added in floating-point arithmetic in the order of
  the allocations: the ten general-government figures, each divided by 46.5, add up to
  46.4, and the social-protection sub-shares add up to the social-protection share.
\<close>

theorem C2_shares_sum_amended:
  "(\<exists>c. exact_sum derived_shares = Some c \<and> \<bar>c - 464 / 465\<bar> \<le> 1 / 10 ^ 15)
   \<and> (\<exists>c. foldl fadd (Fin 0) derived_shares = Fin c \<and> \<bar>c - 464 / 465\<bar> \<le> 1 / 10 ^ 15)"
proof -
  have 1: "exact_sum derived_shares = Some (1150442103521670919 / 2 ^ 60)"
    unfolding derived_shares_val by (simp add: exact_sum_fl)
  have 2: "foldl fadd (Fin 0) derived_shares = Fin (4493914466881527 / 2 ^ 52)"
    unfolding derived_shares_val by (simp add: fl_eval) (simp add: fl_def)
  have 3: "\<bar>1150442103521670919 / 2 ^ 60 - 464 / 465 :: rat\<bar> \<le> 1 / 10 ^ 15" by simp
  have 4: "\<bar>4493914466881527 / 2 ^ 52 - 464 / 465 :: rat\<bar> \<le> 1 / 10 ^ 15" by simp
  show ?thesis using 1 2 3 4 by blast
qed

text \<open>
  C8: for a gross salary of 2000 and a net salary of 1400 the report has
  \<open>withheld = 600\<close>, \<open>employeeContributions = 497 + 2\<^sup>-\<^sup>4\<^sup>4\<close> (the binary64 value
  497.00000000000006, which is 497 within floating-point tolerance) and
  \<open>personalIncomeTax = max(0, 600 - employeeContributions) = 103 - 2\<^sup>-\<^sup>4\<^sup>4\<close> (the binary64
  value 102.99999999999994, which is 103 within floating-point tolerance).
\<close>

theorem C8_scenario_2000_1400:
  "\<exists>r. calculateDistribution (Fin 1400) (Fin 2000) = Inr r
     \<and> withheld r = Fin 600
     \<and> employeeContributions r = Fin (497 + 1 / 2 ^ 44)
     \<and> personalIncomeTax r = fmax (Fin 0) (fsub (Fin 600) (employeeContributions r))
     \<and> personalIncomeTax r = Fin (103 - 1 / 2 ^ 44)
     \<and> \<bar>(497 + 1 / 2 ^ 44) - 497 :: rat\<bar> \<le> 1 / 10 ^ 13
     \<and> \<bar>(103 - 1 / 2 ^ 44) - 103 :: rat\<bar> \<le> 1 / 10 ^ 13"
proof -
  let ?r = "projr (calculateDistribution (Fin 1400) (Fin 2000))"
  have w: "withheld ?r = Fin 600"
    unfolding run_2000 by (simp add: fl_def)
  have e: "employeeContributions ?r = Fin (497 + 1 / 2 ^ 44)"
    unfolding run_2000 by (simp add: fl_def)
  have p: "personalIncomeTax ?r = Fin (103 - 1 / 2 ^ 44)"
    unfolding run_2000 by (simp add: fl_def)
  have r: "calculateDistribution (Fin 1400) (Fin 2000) = Inr ?r"
    unfolding run_2000 by simp
  have "fsub (Fin 2000) (Fin 1400) = Fin 600"
    using w unfolding calc_withheld[OF r] .
  then have m: "personalIncomeTax ?r = fmax (Fin 0) (fsub (Fin 600) (employeeContributions ?r))"
    unfolding calc_personalIncomeTax[OF r] calc_employeeContributions[OF r] by simp
  show ?thesis using r w e p m by (intro exI[of _ ?r]) simp
qed

theorem C8_scenario_2000_1400_witness:
  "\<exists>r. calculateDistribution (Fin 1400) (Fin 2000) = Inr r \<and> withheld r = Fin 600
     \<and> personalIncomeTax r = Fin (103 - 1 / 2 ^ 44)"
  using C8_scenario_2000_1400 by blast

text \<open>
  C1: for every accepted pair of inputs (both finite, gross salary positive) the field
  \<open>personalIncomeTax\<close> of the report is \<open>max(0, withheld - totalEmployeeContributions)\<close>, with
  \<open>withheld = gross - net\<close> and \<open>totalEmployeeContributions = gross * (pensionEmployee +
  healthEmployee + unemploymentEmployee + parentalEmployee + longTermCareEmployee) + 35\<close>,
  all in floating-point arithmetic; it is a number (not NaN) and it is at least zero.
\<close>

theorem C1_tax_is_clamped_residual:
  assumes "is_number gross" and "isFinite net" and "isFinite gross" and "flt (Fin 0) gross"
  shows "\<exists>r. calculateDistribution net gross = Inr r
     \<and> personalIncomeTax r =
         fmax (Fin 0)
           (fsub (fsub gross net)
             (fadd (fmul gross
                 (fadd (fadd (fadd (fadd pensionEmployee healthEmployee)
                    unemploymentEmployee) parentalEmployee) longTermCareEmployee))
               flatHealthContribution))
     \<and> fle (Fin 0) (personalIncomeTax r)"
proof -
  obtain r where r: "calculateDistribution net gross = Inr r"
    using calc_defined[OF assms(2,3) positive_not_fle[OF assms(3,4)]] by blast
  show ?thesis
    using r calc_personalIncomeTax[OF r] tax_nonneg[OF assms r] by blast
qed

theorem C1_tax_is_clamped_residual_witness:
  "is_number (Fin 2000) \<and> isFinite (Fin 1400) \<and> isFinite (Fin 2000)
   \<and> flt (Fin 0) (Fin 2000)
   \<and> (\<exists>r. calculateDistribution (Fin 1400) (Fin 2000) = Inr r
        \<and> personalIncomeTax r = Fin (103 - 1 / 2 ^ 44) \<and> fle (Fin 0) (personalIncomeTax r))"
proof -
  have h: "is_number (Fin 2000)" "isFinite (Fin 1400)" "isFinite (Fin 2000)"
    "flt (Fin 0) (Fin 2000)"
    using is_number_2000 by simp_all
  have "personalIncomeTax (projr (calculateDistribution (Fin 1400) (Fin 2000)))
      = Fin (103 - 1 / 2 ^ 44)"
    unfolding run_2000 by (simp add: fl_def)
  then show ?thesis
    using h C1_tax_is_clamped_residual[OF h] by auto
qed

text \<open>
  C7: for a fixed finite net salary and two positive finite gross salaries \<open>g1 \<le> g2\<close>,
  each of the five contribution amounts computed for \<open>g2\<close> is at least (in the sense of
  \<open><=\<close> on numbers) the amount computed for \<open>g1\<close>.
\<close>

theorem C7_contributions_monotone:
  assumes "isFinite net" and "0 < g1" and "g1 \<le> g2"
  shows "\<exists>r1 r2. calculateDistribution net (Fin g1) = Inr r1
     \<and> calculateDistribution net (Fin g2) = Inr r2
     \<and> fle (pension (contributions r1)) (pension (contributions r2))
     \<and> fle (health (contributions r1)) (health (contributions r2))
     \<and> fle (unemployment (contributions r1)) (unemployment (contributions r2))
     \<and> fle (parental (contributions r1)) (parental (contributions r2))
     \<and> fle (injury (contributions r1)) (injury (contributions r2))"
proof -
  have g2: "0 < g2" using assms(2,3) by simp
  obtain r1 where r1: "calculateDistribution net (Fin g1) = Inr r1"
    using calc_defined[OF assms(1), of "Fin g1"] assms(2) by auto
  obtain r2 where r2: "calculateDistribution net (Fin g2) = Inr r2"
    using calc_defined[OF assms(1), of "Fin g2"] g2 by auto
  have m: "fle (fmul (Fin g1) c) (fmul (Fin g2) c)"
    if "\<exists>q. c = Fin q \<and> 0 < q \<and> q \<le> 1 / 4" for c
    using that fmul_mono_left[OF assms(3)] by auto
  have "fle (pension (contributions r1)) (pension (contributions r2))"
    unfolding calc_contributions[OF r1] calc_contributions[OF r2]
    using m[OF rate_bounds(1)] by simp
  moreover have "fle (health (contributions r1)) (health (contributions r2))"
    unfolding calc_contributions[OF r1] calc_contributions[OF r2] flatHealthContribution_def
    using fadd_mono_left[OF m[OF rate_bounds(2)], of 35] by simp
  moreover have "fle (unemployment (contributions r1)) (unemployment (contributions r2))"
    unfolding calc_contributions[OF r1] calc_contributions[OF r2]
    using m[OF rate_bounds(3)] by simp
  moreover have "fle (parental (contributions r1)) (parental (contributions r2))"
    unfolding calc_contributions[OF r1] calc_contributions[OF r2]
    using m[OF rate_bounds(4)] by simp
  moreover have "fle (injury (contributions r1)) (injury (contributions r2))"
    unfolding calc_contributions[OF r1] calc_contributions[OF r2]
    using m[OF injury_rate_bounds] by simp
  ultimately show ?thesis using r1 r2 by blast
qed

theorem C7_contributions_monotone_witness:
  "isFinite (Fin 1400) \<and> (0::rat) < 2000 \<and> (2000::rat) \<le> 3000
   \<and> (\<exists>r1 r2. calculateDistribution (Fin 1400) (Fin 2000) = Inr r1
     \<and> calculateDistribution (Fin 1400) (Fin 3000) = Inr r2
     \<and> fle (pension (contributions r1)) (pension (contributions r2))
     \<and> fle (health (contributions r1)) (health (contributions r2))
     \<and> fle (unemployment (contributions r1)) (unemployment (contributions r2))
     \<and> fle (parental (contributions r1)) (parental (contributions r2))
     \<and> fle (injury (contributions r1)) (injury (contributions r2)))"
proof -
  have h: "isFinite (Fin 1400)" "(0::rat) < 2000" "(2000::rat) \<le> 3000" by simp_all
  show ?thesis using h C7_contributions_monotone[OF h] by simp
qed

text \<open>
  C10: for every accepted pair of inputs the five contribution amounts, the thirteen
  allocation values and the amounts of the thirteen breakdown entries are all numbers
  (not NaN) that are at least zero.
\<close>

theorem C10_amounts_nonnegative:
  assumes "is_number gross" and "isFinite net" and "isFinite gross" and "flt (Fin 0) gross"
  shows "\<exists>r. calculateDistribution net gross = Inr r
     \<and> fle (Fin 0) (pension (contributions r))
     \<and> fle (Fin 0) (health (contributions r))
     \<and> fle (Fin 0) (unemployment (contributions r))
     \<and> fle (Fin 0) (parental (contributions r))
     \<and> fle (Fin 0) (injury (contributions r))
     \<and> length (Object_values (allocations r)) = 13
     \<and> list_all (fle (Fin 0)) (Object_values (allocations r))
     \<and> length (breakdown r) = 13
     \<and> list_all (fle (Fin 0)) (map amount (breakdown r))"
proof -
  obtain r where r: "calculateDistribution net gross = Inr r"
    using calc_defined[OF assms(2,3) positive_not_fle[OF assms(3,4)]] by blast
  obtain g where g: "gross = Fin g" "0 < g"
    using assms(3,4) by (cases gross) auto
  note c = contributions_nonneg[OF g(2) r[unfolded g(1)]]
  have a: "list_all (fle (Fin 0)) (Object_values (allocations r))"
    by (rule allocations_nonneg[OF tax_nonneg[OF assms r] r])
  have b: "list_all (fle (Fin 0)) (map amount (breakdown r))"
    unfolding calc_breakdown[OF r]
    using a c by (simp add: Object_values_def fadd_nonneg)
  have "length (map amount (breakdown r)) = 13"
    unfolding calc_breakdown[OF r] by simp
  then have l: "length (breakdown r) = 13" by simp
  show ?thesis using r c a b l by (auto simp: Object_values_def)
qed

theorem C10_amounts_nonnegative_witness:
  "is_number (Fin 2000) \<and> isFinite (Fin 1400) \<and> isFinite (Fin 2000)
   \<and> flt (Fin 0) (Fin 2000)
   \<and> (\<exists>r. calculateDistribution (Fin 1400) (Fin 2000) = Inr r
     \<and> fle (Fin 0) (pension (contributions r))
     \<and> fle (Fin 0) (health (contributions r))
     \<and> fle (Fin 0) (unemployment (contributions r))
     \<and> fle (Fin 0) (parental (contributions r))
     \<and> fle (Fin 0) (injury (contributions r))
     \<and> length (Object_values (allocations r)) = 13
     \<and> list_all (fle (Fin 0)) (Object_values (allocations r))
     \<and> length (breakdown r) = 13
     \<and> list_all (fle (Fin 0)) (map amount (breakdown r)))"
proof -
  have h: "is_number (Fin 2000)" "isFinite (Fin 1400)" "isFinite (Fin 2000)"
    "flt (Fin 0) (Fin 2000)"
    using is_number_2000 by simp_all
  show ?thesis using h C10_amounts_nonnegative[OF h] by simp
qed

text \<open>
  C3, as stated, fails: for a gross salary of 2000 and a net salary of 1400,
  \<open>totalCollected\<close> is 941.778494623656 while \<open>gross * (sum of all rates) + 35 +
  personalIncomeTax\<close> is 942 up to rounding; they differ by more than 0.22.
\<close>

theorem C3_total_collected_counterexample:
  "map_sum id totalCollected (calculateDistribution (Fin 1400) (Fin 2000))
      = Inr (Fin (8283971245024695 / 2 ^ 43))
   \<and> map_sum id personalIncomeTax (calculateDistribution (Fin 1400) (Fin 2000))
      = Inr (Fin (103 - 1 / 2 ^ 44))
   \<and> exact_sum all_rates = Some (3707795558815619911 / 2 ^ 63)
   \<and> 22 / 100 < \<bar>8283971245024695 / 2 ^ 43
        - (2000 * (3707795558815619911 / 2 ^ 63) + 35 + (103 - 1 / 2 ^ 44)) :: rat\<bar>"
  unfolding run_2000 all_rates_sum by (simp add: fl_def)

text \<open>
  C3, amended: for every accepted input whose \<open>totalCollected\<close> is finite,
  \<open>totalCollected\<close> equals \<open>gross * (sum of all eleven rates) + 35 + personalIncomeTax * S\<close>
  within a relative tolerance of \<open>10\<^sup>-\<^sup>1\<^sup>2\<close>, where \<open>S\<close> is the sum of the thirteen shares by
  which the tax is allocated, \<open>464 / 465\<close> within \<open>10\<^sup>-\<^sup>1\<^sup>5\<close>.
\<close>

theorem C3_total_collected_amended:
  assumes "calculateDistribution (Fin n) (Fin g) = Inr r" and "totalCollected r = Fin t"
  shows "\<exists>p R S. personalIncomeTax r = Fin p \<and> exact_sum all_rates = Some R
     \<and> exact_sum derived_shares = Some S \<and> \<bar>S - 464 / 465\<bar> \<le> 1 / 10 ^ 15
     \<and> \<bar>t - (g * R + 35 + p * S)\<bar> \<le> (g * R + 35 + p * S) / 10 ^ 12"
proof -
  obtain p where p: "personalIncomeTax r = Fin p"
    using total_finite_tax[OF assms] by blast
  note n = total_near[OF assms p]
  have e: "\<bar>t - (g * (463474444851952509 / 2 ^ 60) + 35 + p * (1150442103521670919 / 2 ^ 60))\<bar>
      \<le> 15 * ((g * (463474444851952509 / 2 ^ 60) + 35 + p * (1150442103521670919 / 2 ^ 60))
          / 2 ^ 52) + 37 * tiny"
    using n(3) unfolding near_def by blast
  have "\<bar>t - (g * (3707795558815619911 / 2 ^ 63) + 35 + p * (1150442103521670919 / 2 ^ 60))\<bar>
      \<le> (g * (3707795558815619911 / 2 ^ 63) + 35 + p * (1150442103521670919 / 2 ^ 60))
          / 10 ^ 12"
  proof (rule rel_close[OF e])
    show "35 \<le> g * (463474444851952509 / 2 ^ 60) + 35 + p * (1150442103521670919 / 2 ^ 60)"
      by (rule rate_sum_close(2)[OF n(1,2)]) simp
    show "\<bar>g * (463474444851952509 / 2 ^ 60) + 35 + p * (1150442103521670919 / 2 ^ 60)
        - (g * (3707795558815619911 / 2 ^ 63) + 35 + p * (1150442103521670919 / 2 ^ 60))\<bar>
      \<le> (g * (3707795558815619911 / 2 ^ 63) + 35 + p * (1150442103521670919 / 2 ^ 60))
          / 10 ^ 15"
      by (rule rate_sum_close(1)[OF n(1,2)]) simp
  qed simp_all
  moreover have "\<bar>1150442103521670919 / 2 ^ 60 - 464 / 465 :: rat\<bar> \<le> 1 / 10 ^ 15" by simp
  ultimately show ?thesis using p all_rates_sum derived_shares_sum by blast
qed

theorem C3_total_collected_amended_witness:
  "\<exists>r. calculateDistribution (Fin 1400) (Fin 2000) = Inr r
     \<and> totalCollected r = Fin (8283971245024695 / 2 ^ 43)
     \<and> (\<exists>p R S. personalIncomeTax r = Fin p \<and> exact_sum all_rates = Some R
       \<and> exact_sum derived_shares = Some S \<and> \<bar>S - 464 / 465\<bar> \<le> 1 / 10 ^ 15
       \<and> \<bar>8283971245024695 / 2 ^ 43 - (2000 * R + 35 + p * S)\<bar>
            \<le> (2000 * R + 35 + p * S) / 10 ^ 12)"
proof -
  let ?r = "projr (calculateDistribution (Fin 1400) (Fin 2000))"
  have r: "calculateDistribution (Fin 1400) (Fin 2000) = Inr ?r"
    unfolding run_2000 by simp
  have t: "totalCollected ?r = Fin (8283971245024695 / 2 ^ 43)"
    unfolding run_2000 by (simp add: fl_def)
  show ?thesis using r t C3_total_collected_amended[OF r t] by blast
qed

text \<open>
  C6, as stated, fails at the overflow threshold: for a gross salary of \<open>2\<^sup>1\<^sup>0\<^sup>2\<^sup>3\<close> and a net
  salary of \<open>- 3748994332910265 * 2\<^sup>9\<^sup>7\<^sup>1\<close> (both binary64 values) \<open>totalCollected\<close> is
  \<open>Infinity\<close>, while the thirteen amounts are finite, their exact sum is below \<open>2\<^sup>1\<^sup>0\<^sup>2\<^sup>4\<close>
  and their floating-point sum is the largest finite number.
\<close>

theorem C6_breakdown_sum_counterexample:
  "is_number (fl (- 3748994332910265) 971) \<and> is_number (fl 1 1023)
   \<and> map_sum id totalCollected
        (calculateDistribution (fl (- 3748994332910265) 971) (fl 1 1023)) = Inr PInf
   \<and> map_sum id (exact_sum \<circ> map amount \<circ> breakdown)
        (calculateDistribution (fl (- 3748994332910265) 971) (fl 1 1023))
      = Inr (Some (1152921504606846773 * 2 ^ 964))
   \<and> map_sum id (foldl fadd (Fin 0) \<circ> map amount \<circ> breakdown)
        (calculateDistribution (fl (- 3748994332910265) 971) (fl 1 1023))
      = Inr (fl 9007199254740991 971)"
proof -
  have 1: "is_number (fl (- 3748994332910265) 971)" "is_number (fl 1 1023)"
    unfolding is_number_fl by (simp_all add: fl_eval)
  have 2: "map_sum id (exact_sum \<circ> map amount \<circ> breakdown)
        (calculateDistribution (fl (- 3748994332910265) 971) (fl 1 1023))
      = Inr (Some (1152921504606846773 * 2 ^ 964))"
    unfolding run_big by (simp add: exact_sum_fl)
  have 3: "map_sum id (foldl fadd (Fin 0) \<circ> map amount \<circ> breakdown)
        (calculateDistribution (fl (- 3748994332910265) 971) (fl 1 1023))
      = Inr (fl 9007199254740991 971)"
    unfolding run_big by (simp add: fl_eval)
  show ?thesis using 1 2 3 unfolding run_big by simp
qed

text \<open>
  C6, amended: for every accepted input \<open>breakdown\<close> is the list of the thirteen named
  entries in their order; and whenever \<open>totalCollected\<close> is finite, the sum of the thirteen
  amounts equals it within a relative tolerance of \<open>10\<^sup>-\<^sup>1\<^sup>2\<close>, both when the amounts are
  all finite and added exactly, and when they are added in floating-point arithmetic from
  0 with a finite result.
\<close>

theorem C6_breakdown_sum_amended:
  assumes "calculateDistribution net gross = Inr r"
  shows "length (breakdown r) = 13
     \<and> map name (breakdown r) =
       [''Pensions (old age)'', ''Healthcare & medical system'', ''Unemployment insurance'',
        ''Parental & family support'', ''Other social protection'', ''Education (schools)'',
        ''Defence (army)'', ''Police (public order & safety)'',
        ''Economic affairs & subsidies'', ''General public services'',
        ''Culture & recreation'', ''Environmental protection'',
        ''Housing & community amenities'']
     \<and> (\<forall>t. totalCollected r = Fin t \<longrightarrow>
          (\<forall>s. exact_sum (map amount (breakdown r)) = Some s \<longrightarrow> \<bar>s - t\<bar> \<le> t / 10 ^ 12)
        \<and> (\<forall>s. foldl fadd (Fin 0) (map amount (breakdown r)) = Fin s
               \<longrightarrow> \<bar>s - t\<bar> \<le> t / 10 ^ 12))"
proof -
  obtain n g where ng: "net = Fin n" "gross = Fin g"
    using calc_accepted[OF assms] by (cases net; cases gross) auto
  note r = assms[unfolded ng]
  have "length (map name (breakdown r)) = 13"
    unfolding calc_breakdown_names[OF assms] by simp
  then have 1: "length (breakdown r) = 13" by simp
  have 2: "\<bar>s - t\<bar> \<le> t / 10 ^ 12"
    if t: "totalCollected r = Fin t"
      and s: "exact_sum (map amount (breakdown r)) = Some s
        \<or> foldl fadd (Fin 0) (map amount (breakdown r)) = Fin s" for t s
  proof -
    obtain p where p: "personalIncomeTax r = Fin p"
      using total_finite_tax[OF r t] by blast
    note n = total_near[OF r t p]
    note b = breakdown_sums_near[OF r n(1) p n(2)]
    have T: "35 \<le> g * (463474444851952509 / 2 ^ 60) + 35
        + p * (1150442103521670919 / 2 ^ 60)"
      by (rule rate_sum_close(2)[OF n(1,2)]) simp
    from s show ?thesis
    proof
      assume "exact_sum (map amount (breakdown r)) = Some s"
      from rel_close_pair[OF b(1)[OF this] n(3) T] show ?thesis by simp
    next
      assume "foldl fadd (Fin 0) (map amount (breakdown r)) = Fin s"
      from rel_close_pair[OF b(2)[OF this] n(3) T] show ?thesis by simp
    qed
  qed
  show ?thesis using 1 2 calc_breakdown_names[OF assms] by blast
qed

theorem C6_breakdown_sum_amended_witness:
  "\<exists>r. calculateDistribution (Fin 1900) (Fin 3000) = Inr r
     \<and> totalCollected r = Fin (7090530585201869 / 2 ^ 42)
     \<and> exact_sum (map amount (breakdown r)) = Some (3630351659623356507 / 2 ^ 51)
     \<and> foldl fadd (Fin 0) (map amount (breakdown r)) = Fin (3545265292600935 / 2 ^ 41)
     \<and> length (breakdown r) = 13
     \<and> \<bar>3630351659623356507 / 2 ^ 51 - 7090530585201869 / 2 ^ 42 :: rat\<bar>
          \<le> (7090530585201869 / 2 ^ 42) / 10 ^ 12
     \<and> \<bar>3545265292600935 / 2 ^ 41 - 7090530585201869 / 2 ^ 42 :: rat\<bar>
          \<le> (7090530585201869 / 2 ^ 42) / 10 ^ 12"
proof -
  let ?r = "projr (calculateDistribution (Fin 1900) (Fin 3000))"
  have r: "calculateDistribution (Fin 1900) (Fin 3000) = Inr ?r"
    unfolding run_3000 by simp
  have t: "totalCollected ?r = Fin (7090530585201869 / 2 ^ 42)"
    unfolding run_3000 by (simp add: fl_def)
  have s: "exact_sum (map amount (breakdown ?r)) = Some (3630351659623356507 / 2 ^ 51)"
    unfolding run_3000 by (simp add: exact_sum_fl)
  have f: "foldl fadd (Fin 0) (map amount (breakdown ?r)) = Fin (3545265292600935 / 2 ^ 41)"
    unfolding run_3000 by (simp add: fl_eval) (simp add: fl_def)
  show ?thesis using r t s f C6_breakdown_sum_amended[OF r] by blast
qed

end
